theory Spec2Isabelle
  imports
    Complex_Main
    "HOL-Library.Log_Nat"
    "HOL-Library.Sublist"
    "HOL-Library.Char_ord"
    "HOL-Library.List_Lexorder"
    "HOL-Library.Multiset"
begin

section \<open>Python values used by toproxypdf\<close>

text \<open>
  The program is \<^verbatim>\<open>src/toproxypdf/__main__.py\<close>.  Its arithmetic mixes Python's
  unbounded \<^verbatim>\<open>int\<close> (modelled as \<^typ>\<open>int\<close>) with \<^verbatim>\<open>float\<close>, an IEEE-754 binary64
  number.  A finite binary64 value is modelled exactly as a pair \<open>Fin m e\<close> standing for
  \<open>m * 2 ^ e\<close>; every operation computes the exact result on integers and then rounds it
  to 53 significant bits, ties to even, as the hardware does.  The sign of a zero is not
  kept: the program only passes floats to \<^verbatim>\<open>int()\<close> and \<^verbatim>\<open>round()\<close>, which ignore it.
\<close>

datatype pyexn =
    OverflowError
  | ValueError
  | IndexError
  | FileExistsError
  | FileNotFoundError
  | LibraryError string

datatype pyfloat = Fin int int | PInf | NInf | NaN

text \<open>\<open>rhe m k\<close> is \<open>m / 2 ^ k\<close> rounded to the nearest integer, ties to the even one.\<close>

definition rhe :: "int \<Rightarrow> nat \<Rightarrow> int" where
  "rhe m k =
     (let q = m div 2 ^ k; r = m mod 2 ^ k
      in if 2 * r < 2 ^ k then q
         else if 2 * r > 2 ^ k then q + 1
         else if even q then q else q + 1)"

text \<open>
  Rounding of the exact value \<open>m * 2 ^ e\<close> to binary64: at most 53 bits of mantissa, no
  exponent below \<open>-1074\<close> (the subnormal range), and an infinity when the rounded value
  reaches \<open>2 ^ 1024\<close>.
\<close>

definition fl_round :: "int \<Rightarrow> int \<Rightarrow> pyfloat" where
  "fl_round m e =
     (let k = max (bitlen \<bar>m\<bar> - 53) (- 1074 - e);
          m' = (if k \<le> 0 then m else rhe m (nat k));
          e' = (if k \<le> 0 then e else e + k)
      in if bitlen \<bar>m'\<bar> + e' > 1024 then (if 0 < m' then PInf else NInf)
         else Fin m' e')"

text \<open>\<^verbatim>\<open>float * float\<close> and \<^verbatim>\<open>float + float\<close>: never raise, overflow gives an infinity.\<close>

fun fmul :: "pyfloat \<Rightarrow> pyfloat \<Rightarrow> pyfloat" where
  "fmul (Fin m1 e1) (Fin m2 e2) = fl_round (m1 * m2) (e1 + e2)"
| "fmul NaN _ = NaN"
| "fmul _ NaN = NaN"
| "fmul (Fin m e) PInf = (if m = 0 then NaN else if 0 < m then PInf else NInf)"
| "fmul (Fin m e) NInf = (if m = 0 then NaN else if 0 < m then NInf else PInf)"
| "fmul PInf (Fin m e) = (if m = 0 then NaN else if 0 < m then PInf else NInf)"
| "fmul NInf (Fin m e) = (if m = 0 then NaN else if 0 < m then NInf else PInf)"
| "fmul PInf PInf = PInf"
| "fmul NInf NInf = PInf"
| "fmul PInf NInf = NInf"
| "fmul NInf PInf = NInf"

fun fadd :: "pyfloat \<Rightarrow> pyfloat \<Rightarrow> pyfloat" where
  "fadd (Fin m1 e1) (Fin m2 e2) =
     (let e = min e1 e2
      in fl_round (m1 * 2 ^ nat (e1 - e) + m2 * 2 ^ nat (e2 - e)) e)"
| "fadd NaN _ = NaN"
| "fadd _ NaN = NaN"
| "fadd PInf NInf = NaN"
| "fadd NInf PInf = NaN"
| "fadd PInf _ = PInf"
| "fadd _ PInf = PInf"
| "fadd NInf _ = NInf"
| "fadd _ NInf = NInf"

text \<open>
  The conversion of an \<^verbatim>\<open>int\<close> operand of a mixed operation (\<^verbatim>\<open>2.5 * dpi\<close>): correctly
  rounded, and \<^verbatim>\<open>OverflowError: int too large to convert to float\<close> beyond the range.
\<close>

definition float_of_int :: "int \<Rightarrow> pyexn + pyfloat" where
  "float_of_int n =
     (case fl_round n 0 of
        Fin m e \<Rightarrow> Inr (Fin m e)
      | _ \<Rightarrow> Inl OverflowError)"

text \<open>\<^verbatim>\<open>int(x)\<close> of a float truncates towards zero; it raises on infinities and NaN.\<close>

fun int_of_float :: "pyfloat \<Rightarrow> pyexn + int" where
  "int_of_float (Fin m e) =
     Inr (if 0 \<le> e then m * 2 ^ nat e
          else if 0 \<le> m then m div 2 ^ nat (- e)
          else - ((- m) div 2 ^ nat (- e)))"
| "int_of_float NaN = Inl ValueError"
| "int_of_float _ = Inl OverflowError"

text \<open>\<^verbatim>\<open>round(x)\<close> of a float, one argument: the nearest \<^verbatim>\<open>int\<close>, ties to even.\<close>

fun py_round :: "pyfloat \<Rightarrow> pyexn + int" where
  "py_round (Fin m e) = Inr (if 0 \<le> e then m * 2 ^ nat e else rhe m (nat (- e)))"
| "py_round NaN = Inl ValueError"
| "py_round _ = Inl OverflowError"

text \<open>\<^verbatim>\<open>c * n\<close> and \<^verbatim>\<open>x + n\<close> for a float and an \<^verbatim>\<open>int\<close>.\<close>

definition fmul_int :: "pyfloat \<Rightarrow> int \<Rightarrow> pyexn + pyfloat" where
  "fmul_int c n = (case float_of_int n of Inl ex \<Rightarrow> Inl ex | Inr x \<Rightarrow> Inr (fmul c x))"

definition fadd_int :: "pyfloat \<Rightarrow> int \<Rightarrow> pyexn + pyfloat" where
  "fadd_int x n = (case float_of_int n of Inl ex \<Rightarrow> Inl ex | Inr y \<Rightarrow> Inr (fadd x y))"

text \<open>Sequencing of computations that may raise.\<close>

definition bind :: "pyexn + 'a \<Rightarrow> ('a \<Rightarrow> pyexn + 'b) \<Rightarrow> pyexn + 'b" where
  "bind r f = (case r of Inl ex \<Rightarrow> Inl ex | Inr v \<Rightarrow> f v)"

text \<open>
  The float literals of the source.  All but \<^verbatim>\<open>.01\<close> and \<^verbatim>\<open>.02\<close> are dyadic and therefore
  exact; those two denote the binary64 numbers nearest to \<open>1/100\<close> and \<open>1/50\<close>.
\<close>

definition lit_0_5 :: pyfloat where "lit_0_5 = Fin 1 (- 1)"
definition lit_2_5 :: pyfloat where "lit_2_5 = Fin 5 (- 1)"
definition lit_3_5 :: pyfloat where "lit_3_5 = Fin 7 (- 1)"
definition lit_5_5 :: pyfloat where "lit_5_5 = Fin 11 (- 1)"
definition lit_8_5 :: pyfloat where "lit_8_5 = Fin 17 (- 1)"
definition lit_0_25 :: pyfloat where "lit_0_25 = Fin 1 (- 2)"
definition lit_3_75 :: pyfloat where "lit_3_75 = Fin 15 (- 2)"
definition lit_7_25 :: pyfloat where "lit_7_25 = Fin 29 (- 2)"
definition lit_0_01 :: pyfloat where "lit_0_01 = Fin 5764607523034235 (- 59)"
definition lit_0_02 :: pyfloat where "lit_0_02 = Fin 5764607523034235 (- 58)"

text \<open>\<^verbatim>\<open>int(c * dpi)\<close> and \<^verbatim>\<open>round(c * dpi)\<close> for a float literal \<open>c\<close>.\<close>

definition int_scaled :: "pyfloat \<Rightarrow> int \<Rightarrow> pyexn + int" where
  "int_scaled c dpi = bind (fmul_int c dpi) int_of_float"

definition round_scaled :: "pyfloat \<Rightarrow> int \<Rightarrow> pyexn + int" where
  "round_scaled c dpi = bind (fmul_int c dpi) py_round"

section \<open>The layout tables of generate_images\<close>

text \<open>
  \<^verbatim>\<open>xcords = [int(.5 * dpi), int(3 * dpi + round(.01 * dpi)),
            int(5.5 * dpi + round(.02 * dpi))]\<close>, evaluated left to right.  The middle entry
  is integer arithmetic throughout, since \<^verbatim>\<open>3 * dpi\<close> is an \<^verbatim>\<open>int\<close>.
\<close>

definition xcords :: "int \<Rightarrow> pyexn + int list" where
  "xcords dpi =
     bind (int_scaled lit_0_5 dpi) (\<lambda>x0.
     bind (round_scaled lit_0_01 dpi) (\<lambda>r1.
     bind (fmul_int lit_5_5 dpi) (\<lambda>a.
     bind (round_scaled lit_0_02 dpi) (\<lambda>r2.
     bind (fadd_int a r2) (\<lambda>s.
     bind (int_of_float s) (\<lambda>x2.
     Inr [x0, 3 * dpi + r1, x2]))))))"

definition ycords :: "int \<Rightarrow> pyexn + int list" where
  "ycords dpi =
     bind (int_scaled lit_0_25 dpi) (\<lambda>y0.
     bind (fmul_int lit_3_75 dpi) (\<lambda>a.
     bind (round_scaled lit_0_01 dpi) (\<lambda>r1.
     bind (fadd_int a r1) (\<lambda>s1.
     bind (int_of_float s1) (\<lambda>y1.
     bind (fmul_int lit_7_25 dpi) (\<lambda>b.
     bind (round_scaled lit_0_02 dpi) (\<lambda>r2.
     bind (fadd_int b r2) (\<lambda>s2.
     bind (int_of_float s2) (\<lambda>y2.
     Inr [y0, y1, y2])))))))))"

text \<open>\<^verbatim>\<open>(int(2.5 * dpi), int(3.5 * dpi))\<close>, the size every accepted image is resized to.\<close>

definition card_size :: "int \<Rightarrow> pyexn + (int \<times> int)" where
  "card_size dpi =
     bind (int_scaled lit_2_5 dpi) (\<lambda>w.
     bind (int_scaled lit_3_5 dpi) (\<lambda>h. Inr (w, h)))"

text \<open>\<^verbatim>\<open>(int(8.5 * dpi), int(11 * dpi))\<close>, the size of a page; \<^verbatim>\<open>11 * dpi\<close> is an \<^verbatim>\<open>int\<close>.\<close>

definition page_size :: "int \<Rightarrow> pyexn + (int \<times> int)" where
  "page_size dpi = bind (int_scaled lit_8_5 dpi) (\<lambda>w. Inr (w, 11 * dpi))"

section \<open>Strings, the file system and the image library\<close>

text \<open>
  File names are \<^typ>\<open>string\<close>s.  \<^verbatim>\<open>str.lower\<close> is modelled on the ASCII letters and
  leaves every other character alone, so \<open>lower\<close> is the program's lowering on names
  made of ASCII characters only; \<^verbatim>\<open>sorted\<close> compares strings character by
  character, which is the lexicographic order on \<^typ>\<open>string\<close>.
\<close>

definition lower_char :: "char \<Rightarrow> char" where
  "lower_char c =
     (if CHR ''A'' \<le> c \<and> c \<le> CHR ''Z'' then char_of (of_char c + (32::nat)) else c)"

definition lower :: "string \<Rightarrow> string" where
  "lower s = map lower_char s"

text \<open>\<^verbatim>\<open>os.path.join(a, b)\<close> on a POSIX system, for two components.\<close>

definition path_join :: "string \<Rightarrow> string \<Rightarrow> string" where
  "path_join a b =
     (if prefix ''/'' b then b
      else if a = [] \<or> suffix ''/'' a then a @ b
      else a @ ''/'' @ b)"

text \<open>What the program asks of the file system.\<close>

record filesystem =
  listdir :: "string \<Rightarrow> string list"
  isfile :: "string \<Rightarrow> bool"
  isdir :: "string \<Rightarrow> bool"

text \<open>
  The calls into the image library on a source image, each of which may raise:
  \<^verbatim>\<open>Image.open(fn)\<close>, \<^verbatim>\<open>img.verify()\<close> and \<^verbatim>\<open>img.resize((w, h))\<close>; \<open>img_size\<close> reads
  \<^verbatim>\<open>img.size\<close>.  The type of images is left open.
\<close>

record 'img pil =
  image_open :: "string \<Rightarrow> pyexn + 'img"
  verify :: "'img \<Rightarrow> pyexn + unit"
  resize :: "'img \<Rightarrow> int \<times> int \<Rightarrow> pyexn + 'img"
  img_size :: "'img \<Rightarrow> int \<times> int"

text \<open>
  A page is an image made by \<^verbatim>\<open>Image.new(mode, size, color=...)\<close>.  The model keeps the
  arguments of that call and the log of the \<^verbatim>\<open>paste(im, (x, y))\<close> calls made on the
  page, oldest first.  \<^verbatim>\<open>Image.new\<close> refuses a negative width or height with
  \<^verbatim>\<open>ValueError\<close> and a side above \<open>2 ^ 31 - 1\<close>, which does not fit a C \<^verbatim>\<open>int\<close>, with
  \<^verbatim>\<open>OverflowError\<close>.  Running out of memory is outside the model: the statements
  about pages are about runs in which \<^verbatim>\<open>generate_images\<close> returns.
\<close>

record 'img canvas =
  c_mode :: string
  c_size :: "int \<times> int"
  c_color :: string
  pasted :: "('img \<times> int \<times> int) list"

definition image_new :: "string \<Rightarrow> int \<times> int \<Rightarrow> string \<Rightarrow> pyexn + 'img canvas" where
  "image_new m sz col =
     (if fst sz < 0 \<or> snd sz < 0 then Inl ValueError
      else if 2147483647 < fst sz \<or> 2147483647 < snd sz then Inl OverflowError
      else Inr \<lparr>c_mode = m, c_size = sz, c_color = col, pasted = []\<rparr>)"

definition paste :: "'img canvas \<Rightarrow> 'img \<Rightarrow> int \<times> int \<Rightarrow> 'img canvas" where
  "paste bg im pos = bg\<lparr>pasted := pasted bg @ [(im, pos)]\<rparr>"

text \<open>\<^verbatim>\<open>xs[i]\<close> for a list and an index that is not negative.\<close>

definition getitem :: "'a list \<Rightarrow> nat \<Rightarrow> pyexn + 'a" where
  "getitem xs i = (if i < length xs then Inr (xs ! i) else Inl IndexError)"

section \<open>parse_arguments\<close>

text \<open>
  The value of \<^verbatim>\<open>parser.parse_args()\<close>: \<^verbatim>\<open>-d\<close> is declared with \<^verbatim>\<open>type=int\<close> and nothing
  else, so \<open>ns_dpi\<close> is any integer.
\<close>

record namespace =
  ns_folder :: string
  ns_output :: "string option"
  ns_excluded :: "string list"
  ns_dpi :: int
  ns_verbose :: bool
  ns_quiet :: bool

text \<open>The dictionary returned by \<^verbatim>\<open>parse_arguments\<close>, with its five keys (the key
  \<^verbatim>\<open>output\<close> is the field \<open>output_path\<close>).\<close>

record arguments =
  folder :: string
  output_path :: string
  excluded :: "string list"
  dpi :: int
  verb :: nat

definition output_name :: "namespace \<Rightarrow> string" where
  "output_name ns =
     (case ns_output ns of
        None \<Rightarrow> ''output.pdf''
      | Some out \<Rightarrow> if suffix ''.pdf'' out then out else out @ ''.pdf'')"

definition parse_arguments :: "filesystem \<Rightarrow> namespace \<Rightarrow> pyexn + arguments" where
  "parse_arguments fs ns =
     (let out = output_name ns
      in if isfile fs out then Inl FileExistsError
         else let a = \<lparr>folder = ns_folder ns, output_path = out, excluded = ns_excluded ns,
                        dpi = ns_dpi ns,
                        verb = (if ns_quiet ns then 0 else if ns_verbose ns then 2 else 1)\<rparr>
              in if \<not> isdir fs (folder a) then Inl FileNotFoundError else Inr a)"

section \<open>list_files\<close>

text \<open>\<^verbatim>\<open>any(files.lower().startswith(i) for i in arguments['excluded'])\<close>\<close>

definition is_excluded :: "arguments \<Rightarrow> string \<Rightarrow> bool" where
  "is_excluded args files = list_ex (\<lambda>i. prefix i (lower files)) (excluded args)"

text \<open>The body of the \<^verbatim>\<open>try\<close> block: the value appended to \<^verbatim>\<open>allfiles\<close>, or the exception.\<close>

definition load_image :: "'img pil \<Rightarrow> arguments \<Rightarrow> string \<Rightarrow> pyexn + 'img" where
  "load_image lib args fn =
     bind (image_open lib fn) (\<lambda>img.
     bind (verify lib img) (\<lambda>_.
     bind (image_open lib fn) (\<lambda>img'.
     bind (card_size (dpi args)) (\<lambda>sz.
     resize lib img' sz))))"

text \<open>
  The \<^verbatim>\<open>for\<close> loop over the sorted directory entries.  The state is the pair of
  \<^verbatim>\<open>allfiles\<close> and \<^verbatim>\<open>excluded_files\<close>; \<^verbatim>\<open>except Exception\<close> catches whatever the \<^verbatim>\<open>try\<close>
  block raised.
\<close>

fun list_files_loop ::
  "'img pil \<Rightarrow> filesystem \<Rightarrow> arguments \<Rightarrow> string list \<Rightarrow>
   'img list \<times> (string \<times> string) list \<Rightarrow> 'img list \<times> (string \<times> string) list" where
  "list_files_loop lib fs args [] st = st"
| "list_files_loop lib fs args (files # rest) (allfiles, excluded_files) =
     (let fn = path_join (folder args) files
      in if is_excluded args files
         then list_files_loop lib fs args rest
                (allfiles, excluded_files @ [(files, ''is in excluded list'')])
         else if \<not> isfile fs fn
         then list_files_loop lib fs args rest
                (allfiles, excluded_files @ [(files, ''is not a file'')])
         else (case load_image lib args fn of
                 Inr img \<Rightarrow> list_files_loop lib fs args rest (allfiles @ [img], excluded_files)
               | Inl ex \<Rightarrow> list_files_loop lib fs args rest
                            (allfiles, excluded_files @ [(files, ''is not a valid image'')])))"

text \<open>
  \<^verbatim>\<open>list_files\<close> returns \<^verbatim>\<open>allfiles\<close> and prints the table of \<^verbatim>\<open>excluded_files\<close>; the model
  returns both.
\<close>

definition list_files ::
  "'img pil \<Rightarrow> filesystem \<Rightarrow> arguments \<Rightarrow> 'img list \<times> (string \<times> string) list" where
  "list_files lib fs args =
     list_files_loop lib fs args (sort (listdir fs (folder args))) ([], [])"

text \<open>
  The three tests of the loop body, read off the source in their order: an entry is
  accepted when it is not excluded, is a regular file and the \<^verbatim>\<open>try\<close> block finishes;
  otherwise \<open>reason\<close> is the text recorded with it.
\<close>

definition accepts :: "'img pil \<Rightarrow> filesystem \<Rightarrow> arguments \<Rightarrow> string \<Rightarrow> bool" where
  "accepts lib fs args files =
     (\<not> is_excluded args files \<and> isfile fs (path_join (folder args) files) \<and>
      \<not> isl (load_image lib args (path_join (folder args) files)))"

definition reason :: "filesystem \<Rightarrow> arguments \<Rightarrow> string \<Rightarrow> string" where
  "reason fs args files =
     (if is_excluded args files then ''is in excluded list''
      else if \<not> isfile fs (path_join (folder args) files) then ''is not a file''
      else ''is not a valid image'')"

definition loaded :: "'img pil \<Rightarrow> arguments \<Rightarrow> string \<Rightarrow> 'img" where
  "loaded lib args files = projr (load_image lib args (path_join (folder args) files))"

section \<open>generate_images\<close>

text \<open>\<^verbatim>\<open>-(-len(fileslist) // 9)\<close>, with Python's floor division.\<close>

definition num_pages :: "nat \<Rightarrow> nat" where
  "num_pages n = nat (- ((- int n) div 9))"

text \<open>
  The list comprehension: one \<^verbatim>\<open>Image.new("RGB", (int(8.5 * dpi), int(11 * dpi)),
  color="white")\<close> per page, the size evaluated anew each time.
\<close>

fun new_backgrounds :: "nat \<Rightarrow> int \<Rightarrow> pyexn + 'img canvas list" where
  "new_backgrounds 0 d = Inr []"
| "new_backgrounds (Suc k) d =
     bind (page_size d) (\<lambda>sz.
     bind (image_new ''RGB'' sz ''white'') (\<lambda>bg.
     bind (new_backgrounds k d) (\<lambda>bgs. Inr (bg # bgs))))"

text \<open>One round of the pasting loop, for index \<open>i\<close>.\<close>

definition paste_step ::
  "int list \<Rightarrow> int list \<Rightarrow> 'img list \<Rightarrow> nat \<Rightarrow> 'img canvas list \<Rightarrow> pyexn + 'img canvas list"
  where
  "paste_step xs ys fileslist i backgrounds =
     bind (getitem xs (i mod 3)) (\<lambda>x.
     bind (getitem ys ((i mod 9) div 3)) (\<lambda>y.
     bind (getitem backgrounds (i div 9)) (\<lambda>bg.
     bind (getitem fileslist i) (\<lambda>im.
     Inr (backgrounds[i div 9 := paste bg im (x, y)])))))"

fun paste_loop ::
  "int list \<Rightarrow> int list \<Rightarrow> 'img list \<Rightarrow> nat list \<Rightarrow> 'img canvas list \<Rightarrow>
   pyexn + 'img canvas list" where
  "paste_loop xs ys fileslist [] backgrounds = Inr backgrounds"
| "paste_loop xs ys fileslist (i # rest) backgrounds =
     bind (paste_step xs ys fileslist i backgrounds) (paste_loop xs ys fileslist rest)"

definition generate_images :: "'img list \<Rightarrow> arguments \<Rightarrow> pyexn + 'img canvas list" where
  "generate_images fileslist args =
     bind (new_backgrounds (num_pages (length fileslist)) (dpi args)) (\<lambda>backgrounds.
     bind (xcords (dpi args)) (\<lambda>xs.
     bind (ycords (dpi args)) (\<lambda>ys.
     paste_loop xs ys fileslist [0..<length fileslist] backgrounds)))"

section \<open>The main block\<close>

text \<open>
  \<^verbatim>\<open>generated_images[0].save(output, resolution=dpi, save_all=True,
  append_images=generated_images[1:])\<close>: the subscript is evaluated first and raises
  \<^verbatim>\<open>IndexError\<close> on an empty list; \<open>save\<close> stands for the library's writer, given the
  first page, the output name, the resolution and the pages to append.
\<close>

type_synonym ('img, 'doc) writer =
  "'img canvas \<Rightarrow> string \<Rightarrow> int \<Rightarrow> 'img canvas list \<Rightarrow> pyexn + 'doc"

definition save_pdf ::
  "('img, 'doc) writer \<Rightarrow> 'img canvas list \<Rightarrow> arguments \<Rightarrow> pyexn + 'doc" where
  "save_pdf save generated_images args =
     bind (getitem generated_images 0) (\<lambda>first.
     save first (output_path args) (dpi args) (drop 1 generated_images))"

text \<open>The main block has no handler: whatever a step raises ends the run.\<close>

definition main ::
  "'img pil \<Rightarrow> ('img, 'doc) writer \<Rightarrow> filesystem \<Rightarrow> namespace \<Rightarrow> pyexn + 'doc" where
  "main lib save fs ns =
     bind (parse_arguments fs ns) (\<lambda>args.
     bind (generate_images (fst (list_files lib fs args)) args) (\<lambda>generated_images.
     save_pdf save generated_images args))"

section \<open>Notions used in the statements\<close>

text \<open>The real number a float stands for (zero for the infinities and NaN).\<close>

definition valf :: "pyfloat \<Rightarrow> real" where
  "valf x = (case x of Fin m e \<Rightarrow> real_of_int m * 2 powr real_of_int e | _ \<Rightarrow> 0)"




text \<open>
  Two rectangles of the same size \<open>sz\<close> with top-left corners \<open>p\<close> and \<open>q\<close> share no
  pixel: one lies to the left of, to the right of, above or below the other.
\<close>

definition disjoint_rects :: "int \<times> int \<Rightarrow> int \<times> int \<Rightarrow> int \<times> int \<Rightarrow> bool" where
  "disjoint_rects sz p q =
     (fst p + fst sz \<le> fst q \<or> fst q + fst sz \<le> fst p \<or>
      snd p + snd sz \<le> snd q \<or> snd q + snd sz \<le> snd p)"

section \<open>A concrete run\<close>

text \<open>
  A folder \<^verbatim>\<open>cards\<close> holding \<^verbatim>\<open>a.png\<close> and \<^verbatim>\<open>c.jpg\<close> (valid images of 100 by 100
  pixels), \<^verbatim>\<open>b.txt\<close> and \<^verbatim>\<open>b.png\<close> (not decodable) and a subdirectory \<^verbatim>\<open>old\<close>.  An
  image of the test library is the path it was read from and its size; its
  \<^verbatim>\<open>resize\<close> refuses a width or height below one, as Pillow's does.
\<close>

definition demo_fs :: filesystem where
  "demo_fs =
     \<lparr>listdir = (\<lambda>d. if d = ''cards'' then [''c.jpg'', ''old'', ''b.txt'', ''a.png'', ''b.png'']
                      else []),
      isfile = (\<lambda>p. p \<in> set [''cards/a.png'', ''cards/b.png'', ''cards/b.txt'', ''cards/c.jpg'']),
      isdir = (\<lambda>p. p \<in> set [''cards'', ''cards/old''])\<rparr>"

definition demo_pil :: "(string \<times> int \<times> int) pil" where
  "demo_pil =
     \<lparr>image_open = (\<lambda>fn. if fn \<in> set [''cards/a.png'', ''cards/c.jpg'']
                          then Inr (fn, 100, 100)
                          else Inl (LibraryError ''UnidentifiedImageError'')),
      verify = (\<lambda>img. Inr ()),
      resize = (\<lambda>img sz. if fst sz < 1 \<or> snd sz < 1 then Inl ValueError
                           else Inr (fst img, sz)),
      img_size = snd\<rparr>"

definition demo_ns :: "int \<Rightarrow> namespace" where
  "demo_ns d =
     \<lparr>ns_folder = ''cards'', ns_output = None, ns_excluded = [], ns_dpi = d,
      ns_verbose = False, ns_quiet = False\<rparr>"

definition demo_args :: "int \<Rightarrow> arguments" where
  "demo_args d =
     \<lparr>folder = ''cards'', output_path = ''output.pdf'', excluded = [], dpi = d, verb = 1\<rparr>"

text \<open>A writer that succeeds and returns the pages it was given.\<close>

definition demo_save :: "('img, 'img canvas list) writer" where
  "demo_save first out res rest = Inr (first # rest)"

section \<open>Basic facts\<close>

lemma bind_Inr_iff:
  "bind r f = Inr v \<longleftrightarrow> (\<exists>u. r = Inr u \<and> f u = Inr v)"
  by (cases r) (simp_all add: bind_def)

lemma bind_Inl [simp]: "bind (Inl ex) f = Inl ex"
  by (simp add: bind_def)

lemma bind_Inr [simp]: "bind (Inr v) f = f v"
  by (simp add: bind_def)

section \<open>Signs of the float results\<close>

lemma rhe_nonpos: "m \<le> 0 \<Longrightarrow> rhe m k \<le> 0"
proof -
  assume m: "m \<le> 0"
  show ?thesis
  proof (cases "m = 0")
    case True then show ?thesis by (simp add: rhe_def)
  next
    case False
    with m have "m < 0" by simp
    then have "m div 2 ^ k < 0" 
      by (simp add: pos_imp_zdiv_neg_iff)
    then show ?thesis by (simp add: rhe_def Let_def)
  qed
qed

lemma rhe_nonneg: "0 \<le> m \<Longrightarrow> 0 \<le> rhe m k"
  by (simp add: rhe_def Let_def pos_imp_zdiv_nonneg_iff)

lemma fl_round_nonpos: "m \<le> 0 \<Longrightarrow> fl_round m e = Fin m' e' \<Longrightarrow> m' \<le> 0"
  by (auto simp: fl_round_def Let_def rhe_nonpos split: if_splits)

lemma fl_round_nonneg: "0 \<le> m \<Longrightarrow> fl_round m e = Fin m' e' \<Longrightarrow> 0 \<le> m'"
  by (auto simp: fl_round_def Let_def rhe_nonneg split: if_splits)

lemma float_of_int_Inr: "float_of_int n = Inr x \<Longrightarrow> \<exists>m e. x = Fin m e \<and> fl_round n 0 = Fin m e"
  by (cases "fl_round n 0") (auto simp: float_of_int_def)

lemma int_of_float_nonpos: "m \<le> 0 \<Longrightarrow> int_of_float (Fin m e) = Inr z \<Longrightarrow> z \<le> 0"
  by (auto simp: mult_nonpos_nonneg pos_imp_zdiv_nonneg_iff split: if_splits)

lemma int_scaled_nonpos:
  assumes "0 \<le> cm" "d \<le> 0" "int_scaled (Fin cm ce) d = Inr z"
  shows "z \<le> 0"
proof -
  from assms(3) obtain x where x: "fmul_int (Fin cm ce) d = Inr x" and z: "int_of_float x = Inr z"
    by (auto simp: int_scaled_def bind_Inr_iff)
  from x obtain y where y: "float_of_int d = Inr y" and xy: "x = fmul (Fin cm ce) y"
    by (auto simp: fmul_int_def split: sum.splits)
  from y obtain m e where me: "y = Fin m e" "fl_round d 0 = Fin m e"
    by (auto dest: float_of_int_Inr)
  with assms(2) have "m \<le> 0" by (auto dest: fl_round_nonpos)
  with assms(1) have p: "cm * m \<le> 0" by (simp add: mult_nonneg_nonpos)
  from z xy me obtain m' e' where f: "fl_round (cm * m) (ce + e) = Fin m' e'" "x = Fin m' e'"
    by (cases "fl_round (cm * m) (ce + e)") auto
  with p have "m' \<le> 0" by (auto dest: fl_round_nonpos)
  with z f show ?thesis by (auto dest: int_of_float_nonpos)
qed

lemma card_size_nonpos:
  "d \<le> 0 \<Longrightarrow> card_size d = Inr (w, h) \<Longrightarrow> w \<le> 0 \<and> h \<le> 0"
  by (auto simp: card_size_def bind_Inr_iff lit_2_5_def lit_3_5_def dest: int_scaled_nonpos [rotated 2])

section \<open>Rounding: error and exactness\<close>

lemma rhe_error: "2 * \<bar>rhe m k * 2 ^ k - m\<bar> \<le> 2 ^ k"
proof -
  define q where "q = m div 2 ^ k"
  define r where "r = m mod 2 ^ k"
  have m: "m = q * 2 ^ k + r"
    unfolding q_def r_def by (rule div_mult_mod_eq [symmetric])
  have r: "0 \<le> r" "r < 2 ^ k" by (simp_all add: r_def)
  have "rhe m k = q \<and> 2 * r \<le> 2 ^ k \<or> rhe m k = q + 1 \<and> 2 ^ k \<le> 2 * r"
    by (auto simp: rhe_def Let_def q_def r_def)
  then show ?thesis
  proof
    assume "rhe m k = q \<and> 2 * r \<le> 2 ^ k"
    with m r show ?thesis by simp
  next
    assume a: "rhe m k = q + 1 \<and> 2 ^ k \<le> 2 * r"
    then have "rhe m k * 2 ^ k - m = 2 ^ k - r"
      by (simp add: m algebra_simps)
    with a r show ?thesis by simp
  qed
qed

lemma rhe_ge: "z * 2 ^ k \<le> m \<Longrightarrow> z \<le> rhe m k"
proof -
  assume "z * 2 ^ k \<le> m"
  then have "(z * 2 ^ k) div 2 ^ k \<le> m div 2 ^ k"
    by (intro zdiv_mono1) simp_all
  then have "z \<le> m div 2 ^ k" by simp
  then show ?thesis by (auto simp: rhe_def Let_def)
qed

lemma rhe_le: "m \<le> z * 2 ^ k \<Longrightarrow> rhe m k \<le> z"
proof -
  assume a: "m \<le> z * 2 ^ k"
  define q where "q = m div 2 ^ k"
  define r where "r = m mod 2 ^ k"
  have m: "m = q * 2 ^ k + r"
    unfolding q_def r_def by (rule div_mult_mod_eq [symmetric])
  have r: "0 \<le> r" "r < 2 ^ k" by (simp_all add: r_def)
  show ?thesis
  proof (cases "r = 0")
    case True
    then have "rhe m k = q" by (simp add: rhe_def Let_def q_def r_def)
    moreover from True m a have "q * 2 ^ k \<le> z * 2 ^ k" by simp
    then have "q \<le> z" by simp
    ultimately show ?thesis by simp
  next
    case False
    with r m a have "q * 2 ^ k < z * 2 ^ k" by linarith
    then have "q < z" by simp
    moreover have "rhe m k \<le> q + 1" by (simp add: rhe_def Let_def q_def)
    ultimately show ?thesis by simp
  qed
qed

lemma fl_round_exact:
  assumes "bitlen \<bar>m\<bar> \<le> 53" "- 1074 \<le> e" "e \<le> 971"
  shows "fl_round m e = Fin m e"
proof -
  define b where "b = bitlen \<bar>m\<bar>"
  have "fl_round m e =
     (let k = max (b - 53) (- 1074 - e);
          m' = (if k \<le> 0 then m else rhe m (nat k));
          e' = (if k \<le> 0 then e else e + k)
      in if bitlen \<bar>m'\<bar> + e' > 1024 then (if 0 < m' then PInf else NInf)
         else Fin m' e')"
    by (simp only: fl_round_def b_def)
  moreover have "max (b - 53) (- 1074 - e) \<le> 0"
    using assms by (simp add: b_def)
  moreover have "\<not> b + e > 1024"
    using assms by (simp add: b_def)
  ultimately show ?thesis
    by (simp add: Let_def b_def)
qed

lemma bitlen_abs_le: "\<bar>m\<bar> < 2 ^ w \<Longrightarrow> bitlen \<bar>m\<bar> \<le> int w"
  by (simp add: bitlen_le_iff_power)

lemma float_of_int_exact: "\<bar>n\<bar> < 2 ^ 53 \<Longrightarrow> float_of_int n = Inr (Fin n 0)"
  using bitlen_abs_le [of n 53] by (simp add: float_of_int_def fl_round_exact)

lemma fmul_int_exact:
  "\<bar>n\<bar> < 2 ^ 53 \<Longrightarrow> \<bar>cm * n\<bar> < 2 ^ 53 \<Longrightarrow> - 1074 \<le> ce \<Longrightarrow> ce \<le> 971 \<Longrightarrow>
     fmul_int (Fin cm ce) n = Inr (Fin (cm * n) ce)"
  using bitlen_abs_le [of "cm * n" 53] by (simp add: fmul_int_def float_of_int_exact fl_round_exact)

lemma int_scaled_exact:
  "0 \<le> n \<Longrightarrow> n < 2 ^ 53 \<Longrightarrow> 0 \<le> cm \<Longrightarrow> cm * n < 2 ^ 53 \<Longrightarrow> - 1074 \<le> ce \<Longrightarrow> ce < 0 \<Longrightarrow>
     int_scaled (Fin cm ce) n = Inr ((cm * n) div 2 ^ nat (- ce))"
  by (simp add: int_scaled_def fmul_int_exact)

lemma valf_Fin [simp]: "valf (Fin m e) = real_of_int m * 2 powr real_of_int e"
  by (simp add: valf_def)

lemma fl_round_cases:
  assumes "fl_round m e = Fin m' e'" "- 1074 \<le> e"
  shows "m' = m \<and> e' = e \<or>
         (\<exists>k. 0 < k \<and> int k = bitlen \<bar>m\<bar> - 53 \<and> m' = rhe m k \<and> e' = e + int k)"
proof -
  define b where "b = bitlen \<bar>m\<bar>"
  define k where "k = max (b - 53) (- 1074 - e)"
  have fl: "fl_round m e =
     (let m' = (if k \<le> 0 then m else rhe m (nat k));
          e' = (if k \<le> 0 then e else e + k)
      in if bitlen \<bar>m'\<bar> + e' > 1024 then (if 0 < m' then PInf else NInf)
         else Fin m' e')"
    by (simp only: fl_round_def b_def k_def Let_def)
  show ?thesis
  proof (cases "k \<le> 0")
    case True
    with fl assms(1) show ?thesis by (simp add: Let_def split: if_splits)
  next
    case False
    with assms(2) have kb: "k = b - 53" by (simp add: k_def max_def split: if_splits)
    from False fl assms(1) have "m' = rhe m (nat k) \<and> e' = e + k"
      by (simp add: Let_def split: if_splits)
    with False kb have "0 < nat k \<and> int (nat k) = bitlen \<bar>m\<bar> - 53 \<and> m' = rhe m (nat k) \<and> e' = e + int (nat k)"
      by (simp add: b_def)
    then show ?thesis by blast
  qed
qed

lemma fl_round_exp: "fl_round m e = Fin m' e' \<Longrightarrow> - 1074 \<le> e \<Longrightarrow> e \<le> e'"
  by (auto dest: fl_round_cases)

lemma fl_round_rel_error:
  assumes "fl_round m e = Fin m' e'" "- 1074 \<le> e"
  shows "\<bar>valf (Fin m' e') - real_of_int m * 2 powr real_of_int e\<bar>
           \<le> \<bar>real_of_int m\<bar> * 2 powr real_of_int e / 2 ^ 53"
proof -
  from fl_round_cases [OF assms]
  show ?thesis
  proof
    assume "m' = m \<and> e' = e"
    then show ?thesis by simp
  next
    assume "\<exists>k. 0 < k \<and> int k = bitlen \<bar>m\<bar> - 53 \<and> m' = rhe m k \<and> e' = e + int k"
    then obtain k where k: "0 < k" "int k = bitlen \<bar>m\<bar> - 53" "m' = rhe m k" "e' = e + int k"
      by blast
    from k(1,2) have "bitlen \<bar>m\<bar> \<noteq> 0" by simp
    then have pos: "0 < \<bar>m\<bar>" by (simp add: bitlen_eq_zero_iff)
    from k(2) have "nat (bitlen \<bar>m\<bar> - 1) = k + 52" by simp
    with bitlen_bounds [OF pos] have lo: "2 ^ (k + 52) \<le> \<bar>m\<bar>" by simp
    then have "real_of_int (2 ^ (k + 52)) \<le> real_of_int \<bar>m\<bar>"
      by (simp only: of_int_le_iff)
    then have lo': "2 ^ k * 2 ^ 52 \<le> \<bar>real_of_int m\<bar>"
      by (simp add: power_add)
    have "real_of_int (2 * \<bar>rhe m k * 2 ^ k - m\<bar>) \<le> real_of_int (2 ^ k)"
      using rhe_error [of m k] by (simp only: of_int_le_iff)
    then have err: "2 * \<bar>real_of_int (rhe m k) * 2 ^ k - real_of_int m\<bar> \<le> 2 ^ k"
      by simp
    define P where "P = 2 powr real_of_int e"
    have P: "0 \<le> P" by (simp add: P_def)
    have p: "2 powr real_of_int (e + int k) = P * 2 ^ k"
      by (simp add: P_def powr_add powr_realpow)
    have "valf (Fin m' e') - real_of_int m * P =
          P * (real_of_int (rhe m k) * 2 ^ k - real_of_int m)"
      unfolding valf_Fin k(3,4) p by (simp add: algebra_simps)
    then have "\<bar>valf (Fin m' e') - real_of_int m * P\<bar> =
          P * \<bar>real_of_int (rhe m k) * 2 ^ k - real_of_int m\<bar>"
      using P by (simp only: abs_mult abs_of_nonneg)
    also have "\<dots> \<le> P * (2 ^ k / 2)"
      using err P by (intro mult_left_mono) simp_all
    also have "\<dots> = P * (2 ^ k * 2 ^ 52) / 2 ^ 53"
      by simp
    also have "\<dots> \<le> P * \<bar>real_of_int m\<bar> / 2 ^ 53"
      using lo' P by (intro divide_right_mono mult_left_mono) simp_all
    finally have "\<bar>valf (Fin m' e') - real_of_int m * P\<bar> \<le> \<bar>real_of_int m\<bar> * P / 2 ^ 53"
      by (simp only: mult.commute [of P])
    then show ?thesis by (simp only: P_def)
  qed
qed

lemma powr_int_nonneg: "0 \<le> e \<Longrightarrow> 2 powr real_of_int e = 2 ^ nat e"
proof -
  assume "0 \<le> e"
  then have eq: "real_of_int e = real (nat e)" by simp
  have "2 powr real (nat e) = (2::real) ^ nat e"
    by (rule powr_realpow) simp
  then show ?thesis by (subst eq)
qed

lemma powr_int_neg: "e < 0 \<Longrightarrow> 2 powr real_of_int e = 1 / 2 ^ nat (- e)"
proof -
  assume "e < 0"
  then have eq: "real_of_int e = - real (nat (- e))" by simp
  have p: "2 powr real (nat (- e)) = (2::real) ^ nat (- e)"
    by (rule powr_realpow) simp
  have "2 powr (- real (nat (- e))) = 1 / 2 powr real (nat (- e))"
    by (rule powr_minus_divide)
  then have "2 powr (- real (nat (- e))) = 1 / (2::real) ^ nat (- e)"
    by (simp only: p)
  then show ?thesis by (subst eq)
qed

lemma int_of_float_bounds:
  assumes "int_of_float (Fin m e) = Inr z" "0 \<le> m"
  shows "real_of_int z \<le> valf (Fin m e) \<and> valf (Fin m e) < real_of_int z + 1"
proof (cases "0 \<le> e")
  case True
  with assms have "z = m * 2 ^ nat e" by simp
  with True show ?thesis by (simp add: powr_int_nonneg)
next
  case False
  then have e: "e < 0" by simp
  define D :: int where "D = 2 ^ nat (- e)"
  from e assms have z: "z = m div D" by (simp add: D_def)
  have "valf (Fin m e) = real_of_int m / 2 ^ nat (- e)"
    using e by (simp add: powr_int_neg)
  then have v: "valf (Fin m e) = real_of_int m / real_of_int D"
    by (simp add: D_def)
  have "z = \<lfloor>real_of_int m / real_of_int D\<rfloor>"
    unfolding z by (simp only: floor_divide_of_int_eq)
  with floor_correct [of "real_of_int m / real_of_int D"]
  have "real_of_int z \<le> real_of_int m / real_of_int D \<and>
        real_of_int m / real_of_int D < real_of_int z + 1"
    by simp
  then show ?thesis by (simp only: v)
qed

lemma py_round_bounds:
  assumes "py_round (Fin m e) = Inr z"
  shows "2 * \<bar>real_of_int z - valf (Fin m e)\<bar> \<le> 1"
proof (cases "0 \<le> e")
  case True
  with assms have "z = m * 2 ^ nat e" by simp
  with True show ?thesis by (simp add: powr_int_nonneg)
next
  case False
  then have e: "e < 0" by simp
  define k where "k = nat (- e)"
  from e assms have z: "z = rhe m k" by (simp add: k_def)
  have v: "valf (Fin m e) = real_of_int m / 2 ^ k"
    using e by (simp add: powr_int_neg k_def)
  have "real_of_int (2 * \<bar>rhe m k * 2 ^ k - m\<bar>) \<le> real_of_int (2 ^ k)"
    using rhe_error [of m k] by (simp only: of_int_le_iff)
  then have err: "2 * \<bar>real_of_int z * 2 ^ k - real_of_int m\<bar> \<le> 2 ^ k"
    by (simp add: z)
  have "real_of_int z - real_of_int m / 2 ^ k = (real_of_int z * 2 ^ k - real_of_int m) / 2 ^ k"
    by (simp add: field_simps)
  then have "2 * \<bar>real_of_int z - real_of_int m / 2 ^ k\<bar> =
             2 * \<bar>real_of_int z * 2 ^ k - real_of_int m\<bar> / 2 ^ k"
    by (simp add: abs_divide)
  also have "\<dots> \<le> 2 ^ k / 2 ^ k"
    using err by (intro divide_right_mono) simp_all
  finally have "2 * \<bar>real_of_int z - real_of_int m / 2 ^ k\<bar> \<le> 1" by simp
  then show ?thesis by (simp only: v)
qed

lemma float_of_int_bounds:
  assumes "float_of_int n = Inr x" "0 \<le> n"
  shows "\<exists>m e. x = Fin m e \<and> 0 \<le> m \<and> 0 \<le> e \<and>
           \<bar>valf x - real_of_int n\<bar> \<le> real_of_int n / 2 ^ 53"
proof -
  from assms(1) obtain m e where x: "x = Fin m e" and f: "fl_round n 0 = Fin m e"
    by (auto dest: float_of_int_Inr)
  from f assms(2) have m: "0 \<le> m" by (rule fl_round_nonneg [rotated])
  from f have e: "0 \<le> e" by (rule fl_round_exp) simp
  from fl_round_rel_error [OF f] assms(2)
  have "\<bar>valf (Fin m e) - real_of_int n\<bar> \<le> real_of_int n / 2 ^ 53"
    by simp
  with x m e show ?thesis by blast
qed

lemma p53: "(2::real) ^ 53 = 9007199254740992"
  by simp

lemma fmul_int_bounds:
  assumes "fmul_int (Fin cm ce) n = Inr (Fin m e)" "0 \<le> cm" "0 \<le> n" "- 1074 \<le> ce"
  shows "0 \<le> m \<and> - 1074 \<le> e \<and>
         \<bar>valf (Fin m e) - valf (Fin cm ce) * real_of_int n\<bar>
           \<le> 3 * (valf (Fin cm ce) * real_of_int n) / 2 ^ 53"
proof -
  from assms(1) obtain y where y: "float_of_int n = Inr y" and x: "fmul (Fin cm ce) y = Fin m e"
    by (auto simp: fmul_int_def split: sum.splits)
  from float_of_int_bounds [OF y assms(3)] obtain mn en where
    yy: "y = Fin mn en" and mn: "0 \<le> mn" and en: "0 \<le> en"
    and vy: "\<bar>valf y - real_of_int n\<bar> \<le> real_of_int n / 2 ^ 53"
    by blast
  from x yy have f: "fl_round (cm * mn) (ce + en) = Fin m e" by simp
  from en assms(4) have lo: "- 1074 \<le> ce + en" by simp
  from assms(2) mn have p: "0 \<le> cm * mn" by simp
  from f p have m: "0 \<le> m" by (rule fl_round_nonneg [rotated])
  from fl_round_exp [OF f lo] lo have e: "- 1074 \<le> e" by simp
  define c where "c = valf (Fin cm ce)"
  define V where "V = valf y"
  have c0: "0 \<le> c" using assms(2) by (simp add: c_def)
  have V0: "0 \<le> V" using mn by (simp add: V_def yy)
  have prod: "real_of_int (cm * mn) * 2 powr real_of_int (ce + en) = c * V"
    by (simp add: c_def V_def yy powr_add)
  have "\<bar>real_of_int (cm * mn)\<bar> = real_of_int (cm * mn)"
    using p by (simp only: abs_of_nonneg of_int_0_le_iff)
  then have absprod: "\<bar>real_of_int (cm * mn)\<bar> * 2 powr real_of_int (ce + en) = c * V"
    by (simp only: prod)
  from fl_round_rel_error [OF f lo]
  have r1: "\<bar>valf (Fin m e) - c * V\<bar> \<le> c * V / 2 ^ 53"
    by (simp only: prod absprod)
  have "c * \<bar>V - real_of_int n\<bar> \<le> c * (real_of_int n / 2 ^ 53)"
    using vy c0 unfolding V_def by (rule mult_left_mono)
  then have r2: "\<bar>c * V - c * real_of_int n\<bar> \<le> c * real_of_int n / 2 ^ 53"
    using c0 by (simp add: abs_mult flip: right_diff_distrib)
  define A where "A = c * real_of_int n"
  define B where "B = c * V"
  define v where "v = valf (Fin m e)"
  from r1 r2 have "\<bar>v - B\<bar> \<le> B / 2 ^ 53" "\<bar>B - A\<bar> \<le> A / 2 ^ 53"
    by (simp_all add: A_def B_def v_def)
  then have "\<bar>v - A\<bar> \<le> 3 * A / 2 ^ 53"
    unfolding p53 by linarith
  with m e show ?thesis by (simp add: A_def v_def c_def)
qed

lemma fadd_Fin:
  "fadd a y = Fin m e \<Longrightarrow> \<exists>m1 e1 m2 e2. a = Fin m1 e1 \<and> y = Fin m2 e2"
  by (cases a; cases y) simp_all

lemma shift_powr:
  "e0 \<le> e \<Longrightarrow> real_of_int (m * 2 ^ nat (e - e0)) * 2 powr real_of_int e0 =
     real_of_int m * 2 powr real_of_int e"
proof -
  assume "e0 \<le> e"
  then have "2 powr real_of_int (e - e0) = 2 ^ nat (e - e0)"
    by (intro powr_int_nonneg) simp
  moreover have "2 powr real_of_int (e - e0) * 2 powr real_of_int e0 = 2 powr real_of_int e"
    by (simp flip: powr_add)
  ultimately show ?thesis
    by (simp add: mult.assoc)
qed

lemma fadd_int_bounds:
  assumes "fadd_int (Fin m1 e1) r = Inr (Fin m e)" "0 \<le> m1" "- 1074 \<le> e1" "0 \<le> r"
  shows "0 \<le> m \<and>
         \<bar>valf (Fin m e) - (valf (Fin m1 e1) + real_of_int r)\<bar>
           \<le> (valf (Fin m1 e1) + 3 * real_of_int r) / 2 ^ 53"
proof -
  from assms(1) obtain y where y: "float_of_int r = Inr y" and x: "fadd (Fin m1 e1) y = Fin m e"
    by (auto simp: fadd_int_def split: sum.splits)
  from float_of_int_bounds [OF y assms(4)] obtain mr er where
    yy: "y = Fin mr er" and mr: "0 \<le> mr" and er: "0 \<le> er"
    and vy: "\<bar>valf y - real_of_int r\<bar> \<le> real_of_int r / 2 ^ 53"
    by blast
  define e0 where "e0 = min e1 er"
  define M where "M = m1 * 2 ^ nat (e1 - e0) + mr * 2 ^ nat (er - e0)"
  from x yy have f: "fl_round M e0 = Fin m e"
    by (simp add: Let_def M_def e0_def)
  from er assms(3) have lo: "- 1074 \<le> e0" by (simp add: e0_def)
  from assms(2) mr have M0: "0 \<le> M" by (simp add: M_def)
  from f M0 have m: "0 \<le> m" by (rule fl_round_nonneg [rotated])
  define v1 where "v1 = valf (Fin m1 e1)"
  define vr where "vr = valf y"
  have s1: "real_of_int (m1 * 2 ^ nat (e1 - e0)) * 2 powr real_of_int e0 =
            real_of_int m1 * 2 powr real_of_int e1"
    by (rule shift_powr) (simp add: e0_def)
  have s2: "real_of_int (mr * 2 ^ nat (er - e0)) * 2 powr real_of_int e0 =
            real_of_int mr * 2 powr real_of_int er"
    by (rule shift_powr) (simp add: e0_def)
  have "real_of_int M * 2 powr real_of_int e0 =
        real_of_int (m1 * 2 ^ nat (e1 - e0)) * 2 powr real_of_int e0 +
        real_of_int (mr * 2 ^ nat (er - e0)) * 2 powr real_of_int e0"
    unfolding M_def by (simp only: of_int_add distrib_right)
  also have "\<dots> = v1 + vr"
    by (simp only: s1 s2 v1_def vr_def yy valf_Fin)
  finally have S: "real_of_int M * 2 powr real_of_int e0 = v1 + vr" .
  have v10: "0 \<le> v1" using assms(2) by (simp add: v1_def)
  have vr0: "0 \<le> vr" using mr by (simp add: vr_def yy)
  have "\<bar>real_of_int M\<bar> = real_of_int M"
    using M0 by (simp only: abs_of_nonneg of_int_0_le_iff)
  then have absS: "\<bar>real_of_int M\<bar> * 2 powr real_of_int e0 = v1 + vr"
    by (simp only: S)
  from fl_round_rel_error [OF f lo]
  have a: "\<bar>valf (Fin m e) - (v1 + vr)\<bar> \<le> (v1 + vr) / 2 ^ 53"
    by (simp only: S absS)
  from vy have b: "\<bar>vr - real_of_int r\<bar> \<le> real_of_int r / 2 ^ 53"
    by (simp add: vr_def)
  define v where "v = valf (Fin m e)"
  define R where "R = real_of_int r"
  from b have R0: "0 \<le> R" unfolding p53 R_def by linarith
  from b R0 have "vr \<le> 2 * R" unfolding p53 R_def by linarith
  then have "(v1 + vr) / 2 ^ 53 \<le> (v1 + 2 * R) / 2 ^ 53"
    by (intro divide_right_mono) simp_all
  with a have "\<bar>v - (v1 + vr)\<bar> \<le> (v1 + 2 * R) / 2 ^ 53"
    unfolding v_def by linarith
  moreover from b have "\<bar>vr - R\<bar> \<le> R / 2 ^ 53" by (simp only: R_def)
  moreover have "\<bar>v - (v1 + R)\<bar> \<le> \<bar>v - (v1 + vr)\<bar> + \<bar>vr - R\<bar>"
    by linarith
  moreover have "(v1 + 2 * R) / 2 ^ 53 + R / 2 ^ 53 = (v1 + 3 * R) / 2 ^ 53"
    by (simp add: add_divide_distrib)
  ultimately have "\<bar>v - (v1 + R)\<bar> \<le> (v1 + 3 * R) / 2 ^ 53"
    by linarith
  then have "\<bar>valf (Fin m e) - (v1 + real_of_int r)\<bar> \<le> (v1 + 3 * real_of_int r) / 2 ^ 53"
    by (simp only: v_def R_def)
  with m show ?thesis by (simp add: v1_def)
qed

lemma valf_nonneg: "0 \<le> m \<Longrightarrow> 0 \<le> valf (Fin m e)"
  by simp

lemma int_of_float_Inr: "int_of_float x = Inr z \<Longrightarrow> \<exists>m e. x = Fin m e"
  by (cases x) simp_all

lemma py_round_Inr: "py_round x = Inr z \<Longrightarrow> \<exists>m e. x = Fin m e"
  by (cases x) simp_all

lemma int_scaled_bounds:
  assumes "int_scaled (Fin cm ce) n = Inr z" "0 \<le> cm" "0 \<le> n" "- 1074 \<le> ce"
  shows "0 \<le> z \<and>
         real_of_int z \<le> valf (Fin cm ce) * real_of_int n +
                           3 * (valf (Fin cm ce) * real_of_int n) / 2 ^ 53 \<and>
         valf (Fin cm ce) * real_of_int n -
           3 * (valf (Fin cm ce) * real_of_int n) / 2 ^ 53 - 1 < real_of_int z"
proof -
  from assms(1) obtain x where x: "fmul_int (Fin cm ce) n = Inr x" and z: "int_of_float x = Inr z"
    by (auto simp: int_scaled_def bind_Inr_iff)
  from z obtain m e where xx: "x = Fin m e" by (auto dest: int_of_float_Inr)
  define A where "A = valf (Fin cm ce) * real_of_int n"
  define v where "v = valf (Fin m e)"
  from fmul_int_bounds [OF x [unfolded xx] assms(2-4)]
  have m: "0 \<le> m" and b: "\<bar>v - A\<bar> \<le> 3 * A / 2 ^ 53"
    by (simp_all only: A_def v_def)
  from int_of_float_bounds [OF z [unfolded xx] m]
  have t: "real_of_int z \<le> v" "v < real_of_int z + 1"
    by (simp_all only: v_def)
  from m have v0: "0 \<le> v" unfolding v_def by (rule valf_nonneg)
  with t have "- 1 < real_of_int z" by linarith
  then have "0 \<le> z" by linarith
  moreover from b t have "real_of_int z \<le> A + 3 * A / 2 ^ 53" "A - 3 * A / 2 ^ 53 - 1 < real_of_int z"
    by linarith+
  ultimately show ?thesis by (simp only: A_def)
qed

lemma round_scaled_bounds:
  assumes "round_scaled (Fin cm ce) n = Inr z" "0 \<le> cm" "0 \<le> n" "- 1074 \<le> ce"
  shows "0 \<le> z \<and>
         \<bar>real_of_int z - valf (Fin cm ce) * real_of_int n\<bar>
           \<le> 3 * (valf (Fin cm ce) * real_of_int n) / 2 ^ 53 + 1 / 2"
proof -
  from assms(1) obtain x where x: "fmul_int (Fin cm ce) n = Inr x" and z: "py_round x = Inr z"
    by (auto simp: round_scaled_def bind_Inr_iff)
  from z obtain m e where xx: "x = Fin m e" by (auto dest: py_round_Inr)
  define A where "A = valf (Fin cm ce) * real_of_int n"
  define v where "v = valf (Fin m e)"
  from fmul_int_bounds [OF x [unfolded xx] assms(2-4)]
  have m: "0 \<le> m" and b: "\<bar>v - A\<bar> \<le> 3 * A / 2 ^ 53"
    by (simp_all only: A_def v_def)
  define Z where "Z = real_of_int z"
  from py_round_bounds [OF z [unfolded xx]]
  have "2 * \<bar>Z - v\<bar> \<le> 1"
    by (simp only: v_def Z_def)
  then have t: "\<bar>Z - v\<bar> \<le> 1 / 2"
    by simp
  from m have v0: "0 \<le> v" unfolding v_def by (rule valf_nonneg)
  from t v0 have "- 1 < Z" by linarith
  then have "- 1 < real_of_int z" by (simp only: Z_def)
  then have "0 \<le> z" by linarith
  moreover from b t have "\<bar>Z - A\<bar> \<le> 3 * A / 2 ^ 53 + 1 / 2"
    by linarith
  then have "\<bar>real_of_int z - A\<bar> \<le> 3 * A / 2 ^ 53 + 1 / 2"
    by (simp only: Z_def)
  ultimately show ?thesis by (simp only: A_def)
qed

lemma scaled_sum_bounds:
  assumes "fmul_int (Fin cm ce) n = Inr a" "fadd_int a r = Inr s" "int_of_float s = Inr z"
    and "0 \<le> cm" "0 \<le> n" "- 1074 \<le> ce" "0 \<le> r"
  shows "real_of_int z \<le> (valf (Fin cm ce) * real_of_int n + real_of_int r) +
            5 * (valf (Fin cm ce) * real_of_int n + real_of_int r) / 2 ^ 53 \<and>
         (valf (Fin cm ce) * real_of_int n + real_of_int r) -
            5 * (valf (Fin cm ce) * real_of_int n + real_of_int r) / 2 ^ 53 - 1 < real_of_int z"
proof -
  from assms(3) obtain ms es where ss: "s = Fin ms es" by (auto dest: int_of_float_Inr)
  from assms(2) ss obtain y where "fadd a y = Fin ms es"
    by (auto simp: fadd_int_def split: sum.splits)
  then obtain ma ea where aa: "a = Fin ma ea" by (auto dest: fadd_Fin)
  define A where "A = valf (Fin cm ce) * real_of_int n"
  define R where "R = real_of_int r"
  define va where "va = valf (Fin ma ea)"
  define vs where "vs = valf (Fin ms es)"
  from fmul_int_bounds [OF assms(1) [unfolded aa] assms(4-6)]
  have ma: "0 \<le> ma" and ea: "- 1074 \<le> ea" and b1: "\<bar>va - A\<bar> \<le> 3 * A / 2 ^ 53"
    by (simp_all only: A_def va_def)
  from fadd_int_bounds [OF assms(2) [unfolded aa ss] ma ea assms(7)]
  have ms: "0 \<le> ms" and b2: "\<bar>vs - (va + R)\<bar> \<le> (va + 3 * R) / 2 ^ 53"
    by (simp_all only: va_def vs_def R_def)
  from int_of_float_bounds [OF assms(3) [unfolded ss] ms]
  have t: "real_of_int z \<le> vs" "vs < real_of_int z + 1"
    by (simp_all only: vs_def)
  have R0: "0 \<le> R" using assms(7) by (simp add: R_def)
  from b1 have A0: "0 \<le> A" unfolding p53 by linarith
  from b1 A0 have "va \<le> 2 * A" unfolding p53 by linarith
  then have "(va + 3 * R) / 2 ^ 53 \<le> (2 * A + 3 * R) / 2 ^ 53"
    by (intro divide_right_mono) simp_all
  with b2 have b3: "\<bar>vs - (va + R)\<bar> \<le> (2 * A + 3 * R) / 2 ^ 53" by linarith
  have e1: "3 * A / 2 ^ 53 + (2 * A + 3 * R) / 2 ^ 53 \<le> 5 * (A + R) / 2 ^ 53"
    using R0 by (simp add: field_simps)
  have "\<bar>vs - (A + R)\<bar> \<le> \<bar>vs - (va + R)\<bar> + \<bar>va - A\<bar>" by linarith
  with b1 b3 e1 have "\<bar>vs - (A + R)\<bar> \<le> 5 * (A + R) / 2 ^ 53" by linarith
  with t have "real_of_int z \<le> (A + R) + 5 * (A + R) / 2 ^ 53"
    "(A + R) - 5 * (A + R) / 2 ^ 53 - 1 < real_of_int z"
    by linarith+
  then show ?thesis by (simp only: A_def R_def)
qed

section \<open>The exact range and the two rounded terms\<close>

lemma fl_round_finite:
  assumes "- 1074 \<le> e" "bitlen \<bar>m\<bar> + e \<le> 1023"
  shows "\<exists>m' e'. fl_round m e = Fin m' e'"
proof -
  define b where "b = bitlen \<bar>m\<bar>"
  define k where "k = max (b - 53) (- 1074 - e)"
  define m' where "m' = (if k \<le> 0 then m else rhe m (nat k))"
  define e' where "e' = (if k \<le> 0 then e else e + k)"
  have fl: "fl_round m e =
      (if bitlen \<bar>m'\<bar> + e' > 1024 then (if 0 < m' then PInf else NInf) else Fin m' e')"
    by (simp only: fl_round_def b_def k_def m'_def e'_def Let_def)
  have "bitlen \<bar>m'\<bar> + e' \<le> 1024"
  proof (cases "k \<le> 0")
    case True
    with assms(2) show ?thesis by (simp add: m'_def e'_def)
  next
    case False
    with assms(1) have kb: "k = b - 53" and k0: "0 < k"
      by (simp_all add: k_def max_def split: if_splits)
    from k0 kb have "b \<noteq> 0" by simp
    then have pos: "0 < \<bar>m\<bar>" by (simp add: b_def bitlen_eq_zero_iff)
    from kb k0 have nb: "nat b = 53 + nat k" by simp
    from bitlen_bounds [OF pos] have "\<bar>m\<bar> < 2 ^ nat b" by (simp add: b_def)
    then have up: "\<bar>m\<bar> < 2 ^ 53 * 2 ^ nat k" by (simp add: nb power_add)
    then have "m \<le> 2 ^ 53 * 2 ^ nat k" "(- (2 ^ 53)) * 2 ^ nat k \<le> m" by simp_all
    then have "rhe m (nat k) \<le> 2 ^ 53" "- (2 ^ 53) \<le> rhe m (nat k)"
      by (auto intro: rhe_le rhe_ge)
    then have "\<bar>rhe m (nat k)\<bar> < 2 ^ 54" by simp
    then have "bitlen \<bar>rhe m (nat k)\<bar> \<le> 54" using bitlen_abs_le [of "rhe m (nat k)" 54] by simp
    with False kb assms(2) show ?thesis by (simp add: m'_def e'_def b_def)
  qed
  with fl show ?thesis by simp
qed

lemma round_scaled_total:
  assumes "0 \<le> d" "d < 2 ^ 53" "0 \<le> cm" "cm < 2 ^ 53" "- 1074 \<le> ce" "ce \<le> 0"
  shows "\<exists>r. round_scaled (Fin cm ce) d = Inr r"
proof -
  from assms(1,2) have f: "float_of_int d = Inr (Fin d 0)" by (simp add: float_of_int_exact)
  from assms(1-4) have "cm * d \<le> 9007199254740991 * 9007199254740991"
    by (intro mult_mono) simp_all
  moreover from assms(1,3) have "0 \<le> cm * d" by simp
  ultimately have "\<bar>cm * d\<bar> < 2 ^ 106" by simp
  then have "bitlen \<bar>cm * d\<bar> \<le> 106" using bitlen_abs_le [of "cm * d" 106] by simp
  with assms(6) have "bitlen \<bar>cm * d\<bar> + ce \<le> 1023" by simp
  with assms(5) obtain m' e' where "fl_round (cm * d) ce = Fin m' e'"
    using fl_round_finite [of ce "cm * d"] by blast
  with f show ?thesis by (simp add: round_scaled_def fmul_int_def)
qed

lemma fadd_int_exact:
  assumes "0 \<le> a" "0 \<le> r" "a + r * 2 ^ k < 2 ^ 53" "k \<le> 1074"
  shows "fadd_int (Fin a (- int k)) r = Inr (Fin (a + r * 2 ^ k) (- int k))"
proof -
  have "r \<le> r * 2 ^ k" using assms(2) by (simp add: mult_le_cancel_left1)
  with assms(1,3) have "r < 2 ^ 53" by linarith
  with assms(2) have f: "float_of_int r = Inr (Fin r 0)" by (simp add: float_of_int_exact)
  have "bitlen \<bar>a + r * 2 ^ k\<bar> \<le> 53"
    using assms(1-3) bitlen_abs_le [of "a + r * 2 ^ k" 53] by simp
  then have "fl_round (a + r * 2 ^ k) (- int k) = Fin (a + r * 2 ^ k) (- int k)"
    using assms(4) by (intro fl_round_exact) simp_all
  with f show ?thesis
    by (simp add: fadd_int_def Let_def min_def)
qed

lemma valf_lit_0_01: "valf lit_0_01 = 5764607523034235 / 2 ^ 59"
  using powr_int_neg [of "- 59"] by (simp add: lit_0_01_def)

lemma valf_lit_0_02: "valf lit_0_02 = 5764607523034235 / 2 ^ 58"
  using powr_int_neg [of "- 58"] by (simp add: lit_0_02_def)

lemma real_pows:
  "(2::real) ^ 56 = 72057594037927936" "(2::real) ^ 57 = 144115188075855872"
  "(2::real) ^ 58 = 288230376151711744" "(2::real) ^ 59 = 576460752303423488"
  by simp_all

lemma round_scaled_lits:
  assumes r1: "round_scaled lit_0_01 d = Inr r1" and r2: "round_scaled lit_0_02 d = Inr r2"
    and d: "0 \<le> d"
  shows "0 \<le> r1 \<and> r1 \<le> r2 \<and> r2 \<le> d \<and>
         \<bar>real_of_int r1 - real_of_int d / 100\<bar> \<le> 1 / 2 + real_of_int d / 2 ^ 57 \<and>
         \<bar>real_of_int r2 - real_of_int d / 50\<bar> \<le> 1 / 2 + real_of_int d / 2 ^ 56"
proof -
  define D where "D = real_of_int d"
  define R1 where "R1 = real_of_int r1"
  define R2 where "R2 = real_of_int r2"
  have D0: "0 \<le> D" using d by (simp add: D_def)
  note v1 = valf_lit_0_01 [unfolded lit_0_01_def]
  note v2 = valf_lit_0_02 [unfolded lit_0_02_def]
  have w1: "0 \<le> r1 \<and>
    \<bar>R1 - 5764607523034235 / 2 ^ 59 * D\<bar> \<le> 3 * (5764607523034235 / 2 ^ 59 * D) / 2 ^ 53 + 1 / 2"
    unfolding R1_def D_def
    using round_scaled_bounds [OF r1 [unfolded lit_0_01_def] _ d] by (simp only: v1)
  have w2: "0 \<le> r2 \<and>
    \<bar>R2 - 5764607523034235 / 2 ^ 58 * D\<bar> \<le> 3 * (5764607523034235 / 2 ^ 58 * D) / 2 ^ 53 + 1 / 2"
    unfolding R2_def D_def
    using round_scaled_bounds [OF r2 [unfolded lit_0_02_def] _ d] by (simp only: v2)
  from w1 have p1: "0 \<le> r1" and
    b1: "\<bar>R1 - 5764607523034235 / 2 ^ 59 * D\<bar> \<le> 3 * (5764607523034235 / 2 ^ 59 * D) / 2 ^ 53 + 1 / 2"
    by blast+
  from w2 have
    b2: "\<bar>R2 - 5764607523034235 / 2 ^ 58 * D\<bar> \<le> 3 * (5764607523034235 / 2 ^ 58 * D) / 2 ^ 53 + 1 / 2"
    by blast
  from b1 D0 have c1: "\<bar>R1 - D / 100\<bar> \<le> 1 / 2 + D / 2 ^ 57"
    unfolding real_pows p53 by linarith
  from b2 D0 have c2: "\<bar>R2 - D / 50\<bar> \<le> 1 / 2 + D / 2 ^ 56"
    unfolding real_pows p53 by linarith
  from c2 D0 have "R2 < D + 1" unfolding real_pows by linarith
  then have le: "r2 \<le> d" unfolding R2_def D_def by linarith
  have ord: "r1 \<le> r2"
  proof (cases "d = 0")
    case True
    with c1 c2 have "\<bar>R1\<bar> \<le> 1 / 2" "\<bar>R2\<bar> \<le> 1 / 2" by (simp_all add: D_def)
    then have "- 1 < R1" "R1 < 1" "- 1 < R2" "R2 < 1" by linarith+
    then have "r1 = 0" "r2 = 0" unfolding R1_def R2_def by linarith+
    then show ?thesis by simp
  next
    case False
    with d have "1 \<le> D" by (simp add: D_def)
    with c1 c2 have "R1 < R2 + 1" unfolding real_pows by linarith
    then show ?thesis unfolding R1_def R2_def by linarith
  qed
  from p1 ord le c1 c2 show ?thesis by (simp add: R1_def R2_def D_def)
qed

lemma scaled_sum_exact:
  assumes "0 \<le> d" "0 \<le> cm" "0 \<le> r" "cm * d + r * 2 ^ k < 2 ^ 53" "d < 2 ^ 53" "0 < k" "k \<le> 1074"
  shows "bind (fmul_int (Fin cm (- int k)) d) (\<lambda>a. bind (fadd_int a r) int_of_float) =
           Inr ((cm * d) div 2 ^ k + r)"
proof -
  have "0 \<le> r * 2 ^ k" using assms(3) by simp
  with assms(4) have "cm * d < 2 ^ 53" by linarith
  moreover have "0 \<le> cm * d" using assms(1,2) by simp
  ultimately have p: "\<bar>cm * d\<bar> < 2 ^ 53" by simp
  from assms have m: "fmul_int (Fin cm (- int k)) d = Inr (Fin (cm * d) (- int k))"
    using p by (intro fmul_int_exact) simp_all
  from assms have a: "fadd_int (Fin (cm * d) (- int k)) r = Inr (Fin (cm * d + r * 2 ^ k) (- int k))"
    by (intro fadd_int_exact) simp_all
  have "(cm * d + r * 2 ^ k) div 2 ^ k = (cm * d) div 2 ^ k + r"
    by simp
  with assms m a show ?thesis by simp
qed

lemma tables_exact:
  assumes "0 \<le> d" "d < 2 ^ 47"
  shows "\<exists>r1 r2. round_scaled lit_0_01 d = Inr r1 \<and> round_scaled lit_0_02 d = Inr r2 \<and>
           xcords d = Inr [d div 2, 3 * d + r1, (11 * d) div 2 + r2] \<and>
           ycords d = Inr [d div 4, (15 * d) div 4 + r1, (29 * d) div 4 + r2]"
proof -
  from assms obtain r1 where r1: "round_scaled lit_0_01 d = Inr r1"
    unfolding lit_0_01_def using round_scaled_total [of d 5764607523034235 "- 59"] by auto
  from assms obtain r2 where r2: "round_scaled lit_0_02 d = Inr r2"
    unfolding lit_0_02_def using round_scaled_total [of d 5764607523034235 "- 58"] by auto
  from round_scaled_lits [OF r1 r2 assms(1)] have o: "0 \<le> r1" "r1 \<le> r2" "r2 \<le> d"
    by blast+
  from assms have x0: "int_scaled lit_0_5 d = Inr (d div 2)"
    unfolding lit_0_5_def using int_scaled_exact [of d 1 "- 1"] by simp
  from assms have y0: "int_scaled lit_0_25 d = Inr (d div 4)"
    unfolding lit_0_25_def using int_scaled_exact [of d 1 "- 2"] by simp
  from assms o have x2: "bind (fmul_int lit_5_5 d) (\<lambda>a. bind (fadd_int a r2) int_of_float) =
      Inr ((11 * d) div 2 + r2)"
    unfolding lit_5_5_def using scaled_sum_exact [of d 11 r2 1] by simp
  from assms o have y1: "bind (fmul_int lit_3_75 d) (\<lambda>a. bind (fadd_int a r1) int_of_float) =
      Inr ((15 * d) div 4 + r1)"
    unfolding lit_3_75_def using scaled_sum_exact [of d 15 r1 2] by simp
  from assms o have y2: "bind (fmul_int lit_7_25 d) (\<lambda>a. bind (fadd_int a r2) int_of_float) =
      Inr ((29 * d) div 4 + r2)"
    unfolding lit_7_25_def using scaled_sum_exact [of d 29 r2 2] by simp
  have xs: "xcords d = Inr [d div 2, 3 * d + r1, (11 * d) div 2 + r2]"
    using x2 by (auto simp: xcords_def x0 r1 r2 bind_Inr_iff)
  have ys: "ycords d = Inr [d div 4, (15 * d) div 4 + r1, (29 * d) div 4 + r2]"
    using y1 y2 by (auto simp: ycords_def y0 r1 r2 bind_Inr_iff)
  from r1 r2 xs ys show ?thesis by blast
qed




section \<open>Pages and the pasting loop\<close>









section \<open>The document writer on an empty page list\<close>

lemma generate_images_Nil:
  "generate_images [] args = Inr bgs \<Longrightarrow> bgs = []"
  by (auto simp: generate_images_def num_pages_def bind_Inr_iff)

text \<open>
  Claim C9.  When there is no page (no image was accepted), writing the document fails:
  \<^verbatim>\<open>generated_images[0]\<close> raises \<^verbatim>\<open>IndexError\<close> before the writer is called, and since the
  main block catches nothing, a run whose accepted list is empty ends with an exception
  and without a document.
\<close>

theorem save_pdf_empty_fails:
  "save_pdf save [] args = Inl IndexError \<and>
   (parse_arguments fs ns = Inr a \<and> fst (list_files (lib :: 'img pil) fs a) = [] \<longrightarrow>
      (\<exists>ex. main lib save fs ns = Inl ex))"
proof (intro conjI impI)
  show "save_pdf save [] args = Inl IndexError"
    by (simp add: save_pdf_def getitem_def)
next
  assume h: "parse_arguments fs ns = Inr a \<and> fst (list_files lib fs a) = []"
  show "\<exists>ex. main lib save fs ns = Inl ex"
  proof (cases "generate_images ([] :: 'img list) a")
    case (Inl ex)
    with h show ?thesis by (simp add: main_def)
  next
    case (Inr bgs)
    then have "bgs = []" by (rule generate_images_Nil)
    with h Inr show ?thesis by (simp add: main_def save_pdf_def getitem_def)
  qed
qed

theorem save_pdf_empty_fails_witness:
  "parse_arguments demo_fs (demo_ns 0) = Inr (demo_args 0) \<and>
   fst (list_files demo_pil demo_fs (demo_args 0)) = [] \<and>
   main demo_pil demo_save demo_fs (demo_ns 0) = Inl IndexError"
proof -
  have p: "parse_arguments demo_fs (demo_ns 0) = Inr (demo_args 0)"
    by code_simp
  have l: "fst (list_files demo_pil demo_fs (demo_args 0)) = []"
    by code_simp
  have m: "main demo_pil demo_save demo_fs (demo_ns 0) = Inl IndexError"
    by code_simp
  from save_pdf_empty_fails [of demo_save "demo_args 0" demo_fs "demo_ns 0" "demo_args 0" demo_pil]
    p l m show ?thesis by simp
qed

section \<open>list_files: every entry is accepted or rejected\<close>

lemma list_files_loop_eq:
  "list_files_loop lib fs args es (allfiles, excluded_files) =
     (allfiles @ map (loaded lib args) (filter (accepts lib fs args) es),
      excluded_files @
        map (\<lambda>f. (f, reason fs args f)) (filter (\<lambda>f. \<not> accepts lib fs args f) es))"
proof (induction es arbitrary: allfiles excluded_files)
  case Nil
  show ?case by simp
next
  case (Cons f es)
  show ?case
  proof (cases "load_image lib args (path_join (folder args) f)")
    case (Inl ex)
    then show ?thesis
      by (simp add: Cons.IH accepts_def reason_def Let_def)
  next
    case (Inr img)
    then show ?thesis
      by (simp add: Cons.IH accepts_def reason_def loaded_def Let_def)
  qed
qed

lemma list_files_eq:
  "list_files lib fs args =
     (map (loaded lib args) (filter (accepts lib fs args) (sort (listdir fs (folder args)))),
      map (\<lambda>f. (f, reason fs args f))
        (filter (\<lambda>f. \<not> accepts lib fs args f) (sort (listdir fs (folder args)))))"
  by (simp add: list_files_def list_files_loop_eq)

lemma reason_cases:
  "reason fs args f \<in> {''is in excluded list'', ''is not a file'', ''is not a valid image''}"
  by (simp add: reason_def)

text \<open>
  Claim C3.  Let \<open>es\<close> be the sorted directory listing.  The accepted images are the
  loaded images of the entries that pass the three tests, in the order of \<open>es\<close>; the
  rejection list names the other entries, in the order of \<open>es\<close>, each with one of the
  three reasons.  The accepted names and the rejected names together are the listing
  (as multisets: nothing is omitted and nothing is repeated), they have no name in
  common, both are sorted, and when the listing has no repeated name neither list has.
\<close>

theorem list_files_partition:
  fixes lib :: "'img pil" and fs :: filesystem and args :: arguments
  shows "fst (list_files lib fs args) =
           map (loaded lib args)
             (filter (accepts lib fs args) (sort (listdir fs (folder args)))) \<and>
         map fst (snd (list_files lib fs args)) =
           filter (\<lambda>f. \<not> accepts lib fs args f) (sort (listdir fs (folder args))) \<and>
         mset (filter (accepts lib fs args) (sort (listdir fs (folder args)))) +
           mset (map fst (snd (list_files lib fs args))) = mset (listdir fs (folder args)) \<and>
         set (filter (accepts lib fs args) (sort (listdir fs (folder args)))) \<inter>
           set (map fst (snd (list_files lib fs args))) = {} \<and>
         sorted (filter (accepts lib fs args) (sort (listdir fs (folder args)))) \<and>
         sorted (map fst (snd (list_files lib fs args))) \<and>
         snd ` set (snd (list_files lib fs args)) \<subseteq>
           {''is in excluded list'', ''is not a file'', ''is not a valid image''} \<and>
         (distinct (listdir fs (folder args)) \<longrightarrow>
            distinct (filter (accepts lib fs args) (sort (listdir fs (folder args))) @
                      map fst (snd (list_files lib fs args))))"
proof -
  define es where "es = sort (listdir fs (folder args))"
  define acc where "acc = filter (accepts lib fs args) es"
  define rej where "rej = map fst (snd (list_files lib fs args))"
  have rej: "rej = filter (\<lambda>f. \<not> accepts lib fs args f) es"
    by (simp add: rej_def es_def list_files_eq comp_def)
  have m: "mset acc + mset rej = mset (listdir fs (folder args))"
    by (simp add: rej acc_def es_def)
  have d: "set acc \<inter> set rej = {}"
    by (auto simp: rej acc_def)
  have s: "sorted acc \<and> sorted rej"
    by (simp add: rej acc_def es_def sorted_wrt_filter)
  have r: "snd ` set (snd (list_files lib fs args)) \<subseteq>
           {''is in excluded list'', ''is not a file'', ''is not a valid image''}"
    using reason_cases [of fs args] by (fastforce simp: list_files_eq)
  have dd: "distinct (acc @ rej)" if "distinct (listdir fs (folder args))"
    using that d by (simp add: rej acc_def es_def)
  have f: "fst (list_files lib fs args) = map (loaded lib args) acc"
    by (simp add: list_files_eq acc_def es_def)
  from f rej m d s r dd show ?thesis
    unfolding acc_def rej_def es_def by blast
qed

theorem list_files_partition_witness:
  "distinct (listdir demo_fs (folder (demo_args 100))) \<and>
   filter (accepts demo_pil demo_fs (demo_args 100)) (sort (listdir demo_fs (folder (demo_args 100))))
     = [''a.png'', ''c.jpg''] \<and>
   list_files demo_pil demo_fs (demo_args 100) =
     ([(''cards/a.png'', 250, 350), (''cards/c.jpg'', 250, 350)],
      [(''b.png'', ''is not a valid image''), (''b.txt'', ''is not a valid image''),
       (''old'', ''is not a file'')]) \<and>
   distinct ([''a.png'', ''c.jpg''] @ map fst (snd (list_files demo_pil demo_fs (demo_args 100))))"
proof -
  have a: "distinct (listdir demo_fs (folder (demo_args 100)))"
    by code_simp
  have b: "filter (accepts demo_pil demo_fs (demo_args 100))
             (sort (listdir demo_fs (folder (demo_args 100)))) = [''a.png'', ''c.jpg'']"
    by code_simp
  have c: "list_files demo_pil demo_fs (demo_args 100) =
     ([(''cards/a.png'', 250, 350), (''cards/c.jpg'', 250, 350)],
      [(''b.png'', ''is not a valid image''), (''b.txt'', ''is not a valid image''),
       (''old'', ''is not a file'')])"
    by code_simp
  from list_files_partition [of demo_pil demo_fs "demo_args 100"] a
  have "distinct (filter (accepts demo_pil demo_fs (demo_args 100))
                    (sort (listdir demo_fs (folder (demo_args 100)))) @
                  map fst (snd (list_files demo_pil demo_fs (demo_args 100))))"
    by blast
  then have d: "distinct ([''a.png'', ''c.jpg''] @
                  map fst (snd (list_files demo_pil demo_fs (demo_args 100))))"
    by (simp only: b)
  from a b c d show ?thesis by (intro conjI)
qed

text \<open>
  Claim C8.  When the \<^verbatim>\<open>try\<close> block of an entry raises, whatever the exception and
  whichever of its calls raised it (opening, verifying, reopening, computing the target
  size, resizing), the loop records the entry with the reason \<^verbatim>\<open>is not a valid image\<close>
  and goes on with the remaining entries; \<^verbatim>\<open>list_files\<close> itself returns its two lists,
  and every such entry of the directory is in the rejection list.
\<close>

theorem list_files_absorbs_failure:
  fixes lib :: "'img pil"
  assumes "\<not> is_excluded args files"
    and "isfile fs (path_join (folder args) files)"
    and "load_image lib args (path_join (folder args) files) = Inl ex"
  shows "list_files_loop lib fs args (files # rest) (allfiles, excluded_files) =
           list_files_loop lib fs args rest
             (allfiles, excluded_files @ [(files, ''is not a valid image'')]) \<and>
         (files \<in> set (listdir fs (folder args)) \<longrightarrow>
            (files, ''is not a valid image'') \<in> set (snd (list_files lib fs args)))"
proof -
  have "\<not> accepts lib fs args files"
    using assms by (simp add: accepts_def)
  moreover have "reason fs args files = ''is not a valid image''"
    using assms by (simp add: reason_def)
  ultimately have "(files, ''is not a valid image'') \<in> set (snd (list_files lib fs args))"
    if "files \<in> set (listdir fs (folder args))"
    using that by (force simp: list_files_eq)
  then show ?thesis
    using assms by (simp add: Let_def)
qed

theorem list_files_absorbs_failure_witness:
  "\<not> is_excluded (demo_args 100) ''b.png'' \<and>
   isfile demo_fs (path_join (folder (demo_args 100)) ''b.png'') \<and>
   load_image demo_pil (demo_args 100) (path_join (folder (demo_args 100)) ''b.png'') =
     Inl (LibraryError ''UnidentifiedImageError'') \<and>
   ''b.png'' \<in> set (listdir demo_fs (folder (demo_args 100))) \<and>
   list_files_loop demo_pil demo_fs (demo_args 100) [''b.png'', ''c.jpg''] ([], []) =
     list_files_loop demo_pil demo_fs (demo_args 100) [''c.jpg'']
       ([], [(''b.png'', ''is not a valid image'')]) \<and>
   (''b.png'', ''is not a valid image'') \<in> set (snd (list_files demo_pil demo_fs (demo_args 100)))"
proof -
  have a: "\<not> is_excluded (demo_args 100) ''b.png''"
    by code_simp
  have b: "isfile demo_fs (path_join (folder (demo_args 100)) ''b.png'')"
    by code_simp
  have c: "load_image demo_pil (demo_args 100) (path_join (folder (demo_args 100)) ''b.png'') =
     Inl (LibraryError ''UnidentifiedImageError'')"
    by code_simp
  have d: "''b.png'' \<in> set (listdir demo_fs (folder (demo_args 100)))"
    by code_simp
  from list_files_absorbs_failure [OF a b c, of "[''c.jpg'']" "[]" "[]"] a b c d
  show ?thesis by simp
qed

section \<open>Exclusion by prefix\<close>

lemma is_excluded_iff:
  "is_excluded args files \<longleftrightarrow> (\<exists>i. i \<in> set (excluded args) \<and> prefix i (lower files))"
  by (auto simp: is_excluded_def list_ex_iff)

text \<open>
  Claim C5.  The entry name is lowercased, the configured prefixes are used as they were
  typed: \<^verbatim>\<open>IMG_skip.png\<close> is excluded by the prefix \<^verbatim>\<open>img_skip\<close> but not by the prefix
  \<^verbatim>\<open>IMG_SKIP\<close>, although both lowercase to the same string.
\<close>

theorem uppercase_prefix_not_matched:
  "is_excluded ((demo_args 1000)\<lparr>excluded := [''img_skip'']\<rparr>) ''IMG_skip.png'' \<and>
   \<not> is_excluded ((demo_args 1000)\<lparr>excluded := [''IMG_SKIP'']\<rparr>) ''IMG_skip.png'' \<and>
   lower ''IMG_skip.png'' = ''img_skip.png'' \<and> lower ''IMG_SKIP'' = ''img_skip''"
  by code_simp

section \<open>list_files: the size of the accepted images\<close>

lemma load_image_Inr:
  "load_image lib args fn = Inr a \<Longrightarrow>
     \<exists>img sz. image_open lib fn = Inr img \<and> card_size (dpi args) = Inr sz \<and>
              resize lib img sz = Inr a"
  by (auto simp: load_image_def bind_Inr_iff)

lemma valf_halves: "valf (Fin m (- 1)) = real_of_int m / 2"
  using powr_int_neg [of "- 1"] by simp

lemma valf_quarters: "valf (Fin m (- 2)) = real_of_int m / 4"
  using powr_int_neg [of "- 2"] by simp

lemma card_size_exact:
  "0 \<le> d \<Longrightarrow> d < 2 ^ 50 \<Longrightarrow> card_size d = Inr ((5 * d) div 2, (7 * d) div 2)"
  by (simp add: card_size_def lit_2_5_def lit_3_5_def int_scaled_exact)

lemma card_size_bounds:
  assumes "card_size d = Inr (w, h)" "0 \<le> d"
  shows "real_of_int w \<le> 5 / 2 * real_of_int d * (1 + 3 / 2 ^ 53) \<and>
         5 / 2 * real_of_int d * (1 - 3 / 2 ^ 53) - 1 < real_of_int w \<and>
         real_of_int h \<le> 7 / 2 * real_of_int d * (1 + 3 / 2 ^ 53) \<and>
         7 / 2 * real_of_int d * (1 - 3 / 2 ^ 53) - 1 < real_of_int h"
proof -
  from assms(1) have w: "int_scaled (Fin 5 (- 1)) d = Inr w" and h: "int_scaled (Fin 7 (- 1)) d = Inr h"
    by (auto simp: card_size_def bind_Inr_iff lit_2_5_def lit_3_5_def)
  from int_scaled_bounds [OF w _ assms(2)]
  have "real_of_int w \<le> 5 / 2 * real_of_int d * (1 + 3 / 2 ^ 53) \<and>
         5 / 2 * real_of_int d * (1 - 3 / 2 ^ 53) - 1 < real_of_int w"
    by (simp add: valf_halves algebra_simps del: valf_Fin)
  moreover from int_scaled_bounds [OF h _ assms(2)]
  have "real_of_int h \<le> 7 / 2 * real_of_int d * (1 + 3 / 2 ^ 53) \<and>
         7 / 2 * real_of_int d * (1 - 3 / 2 ^ 53) - 1 < real_of_int h"
    by (simp add: valf_halves algebra_simps del: valf_Fin)
  ultimately show ?thesis by simp
qed

text \<open>
  Claim C7.  Every accepted image is the result of \<^verbatim>\<open>resize\<close> on an opened directory
  entry, asked for the size \<^verbatim>\<open>(int(2.5 * dpi), int(3.5 * dpi))\<close>, which does not depend on
  the image; so, with a library whose \<^verbatim>\<open>resize\<close> returns an image of the size it was
  asked for, every accepted image has exactly that size.  For a positive dpi below
  \<open>2 ^ 50\<close> the float products are exact and the size is \<open>(5 * dpi div 2, 7 * dpi div 2)\<close>;
  for every positive dpi the width lies within one pixel and a relative error of
  \<open>3 / 2 ^ 53\<close> of \<open>2.5 * dpi\<close>, and the height of \<open>3.5 * dpi\<close>.
\<close>

theorem accepted_images_resized:
  fixes lib :: "'img pil"
  assumes contract: "\<forall>img sz r. resize lib img sz = Inr r \<longrightarrow> img_size lib r = sz"
    and a: "a \<in> set (fst (list_files lib fs args))"
  shows "\<exists>w h files img.
           card_size (dpi args) = Inr (w, h) \<and>
           files \<in> set (listdir fs (folder args)) \<and>
           image_open lib (path_join (folder args) files) = Inr img \<and>
           resize lib img (w, h) = Inr a \<and>
           img_size lib a = (w, h) \<and>
           (0 < dpi args \<and> dpi args < 2 ^ 50 \<longrightarrow>
              w = (5 * dpi args) div 2 \<and> h = (7 * dpi args) div 2) \<and>
           (0 < dpi args \<longrightarrow>
              real_of_int w \<le> 5 / 2 * real_of_int (dpi args) * (1 + 3 / 2 ^ 53) \<and>
              5 / 2 * real_of_int (dpi args) * (1 - 3 / 2 ^ 53) - 1 < real_of_int w \<and>
              real_of_int h \<le> 7 / 2 * real_of_int (dpi args) * (1 + 3 / 2 ^ 53) \<and>
              7 / 2 * real_of_int (dpi args) * (1 - 3 / 2 ^ 53) - 1 < real_of_int h)"
proof -
  from a obtain files where f: "files \<in> set (listdir fs (folder args))"
    and acc: "accepts lib fs args files" and l: "a = loaded lib args files"
    by (auto simp: list_files_eq)
  from acc l have "load_image lib args (path_join (folder args) files) = Inr a"
    by (cases "load_image lib args (path_join (folder args) files)")
       (auto simp: accepts_def loaded_def)
  then obtain img sz where o: "image_open lib (path_join (folder args) files) = Inr img"
    and c: "card_size (dpi args) = Inr sz" and r: "resize lib img sz = Inr a"
    by (auto dest: load_image_Inr)
  obtain w h where sz: "sz = (w, h)" by (cases sz)
  from contract r sz have s: "img_size lib a = (w, h)" by simp
  have e: "w = (5 * dpi args) div 2 \<and> h = (7 * dpi args) div 2"
    if "0 < dpi args \<and> dpi args < 2 ^ 50"
    using that c sz card_size_exact [of "dpi args"] by simp
  have b: "real_of_int w \<le> 5 / 2 * real_of_int (dpi args) * (1 + 3 / 2 ^ 53) \<and>
              5 / 2 * real_of_int (dpi args) * (1 - 3 / 2 ^ 53) - 1 < real_of_int w \<and>
              real_of_int h \<le> 7 / 2 * real_of_int (dpi args) * (1 + 3 / 2 ^ 53) \<and>
              7 / 2 * real_of_int (dpi args) * (1 - 3 / 2 ^ 53) - 1 < real_of_int h"
    if "0 < dpi args"
    using that c sz card_size_bounds [of "dpi args" w h] by simp
  from f o c r sz s e b show ?thesis by blast
qed

theorem accepted_images_resized_witness:
  "(''cards/a.png'', 250, 350) \<in> set (fst (list_files demo_pil demo_fs (demo_args 100))) \<and>
   card_size (dpi (demo_args 100)) = Inr (250, 350) \<and>
   img_size demo_pil (''cards/a.png'', 250, 350) = (250, 350)"
proof -
  have c: "\<forall>img sz r. resize demo_pil img sz = Inr r \<longrightarrow> img_size demo_pil r = sz"
    by (auto simp: demo_pil_def split: if_splits)
  have a: "(''cards/a.png'', 250, 350) \<in> set (fst (list_files demo_pil demo_fs (demo_args 100)))"
    by code_simp
  have s: "card_size (dpi (demo_args 100)) = Inr (250, 350)"
    by code_simp
  from accepted_images_resized [OF c a] s
  have "img_size demo_pil (''cards/a.png'', 250, 350) = (250, 350)"
    by auto
  with a s show ?thesis by (intro conjI)
qed

section \<open>list_files with a dpi that is not positive\<close>

lemma load_image_nonpos_dpi:
  fixes lib :: "'img pil"
  assumes "dpi args \<le> 0"
    and contract: "\<forall>img w h. w < 1 \<or> h < 1 \<longrightarrow> isl (resize lib img (w, h))"
  shows "isl (load_image lib args fn)"
proof (cases "load_image lib args fn")
  case (Inl ex)
  then show ?thesis by simp
next
  case (Inr a)
  then obtain img sz where s: "card_size (dpi args) = Inr sz" and r: "resize lib img sz = Inr a"
    by (auto dest: load_image_Inr)
  obtain w h where sz: "sz = (w, h)" by (cases sz)
  with s assms(1) have "w \<le> 0" by (auto dest: card_size_nonpos)
  with contract have "isl (resize lib img (w, h))" by simp
  with r sz show ?thesis by simp
qed

text \<open>
  Claim C10.  With \<^verbatim>\<open>-d\<close> zero or negative, \<^verbatim>\<open>parse_arguments\<close> raises nothing (its two
  checks do not look at the dpi).  The target size then has no positive component, so
  with a library whose \<^verbatim>\<open>resize\<close> refuses such sizes every \<^verbatim>\<open>try\<close> block raises: no
  image is accepted, and every entry that is a regular file and not excluded is
  recorded with \<^verbatim>\<open>is not a valid image\<close>.
\<close>

theorem nonpositive_dpi_rejects_all:
  fixes lib :: "'img pil"
  assumes d: "ns_dpi ns \<le> 0"
    and out: "\<not> isfile fs (output_name ns)"
    and dir: "isdir fs (ns_folder ns)"
    and contract: "\<forall>img w h. w < 1 \<or> h < 1 \<longrightarrow> isl (resize lib img (w, h))"
  shows "\<exists>args. parse_arguments fs ns = Inr args \<and> dpi args = ns_dpi ns \<and>
           fst (list_files lib fs args) = [] \<and>
           (\<forall>files \<in> set (listdir fs (folder args)).
              \<not> is_excluded args files \<and> isfile fs (path_join (folder args) files) \<longrightarrow>
              (files, ''is not a valid image'') \<in> set (snd (list_files lib fs args)))"
proof -
  from out dir obtain args where p: "parse_arguments fs ns = Inr args" and dd: "dpi args = ns_dpi ns"
    by (auto simp: parse_arguments_def Let_def)
  from d dd have "dpi args \<le> 0" by simp
  then have l: "isl (load_image lib args fn)" for fn
    using contract by (rule load_image_nonpos_dpi)
  then have na: "\<not> accepts lib fs args files" for files
    by (simp add: accepts_def)
  then have e: "fst (list_files lib fs args) = []"
    by (simp add: list_files_eq)
  have "(files, ''is not a valid image'') \<in> set (snd (list_files lib fs args))"
    if "files \<in> set (listdir fs (folder args))" "\<not> is_excluded args files"
       "isfile fs (path_join (folder args) files)" for files
  proof -
    from that have "reason fs args files = ''is not a valid image''"
      by (simp add: reason_def)
    with that(1) na show ?thesis
      by (force simp: list_files_eq)
  qed
  with p dd e show ?thesis by blast
qed

theorem nonpositive_dpi_rejects_all_witness:
  "ns_dpi (demo_ns (- 300)) \<le> 0 \<and>
   \<not> isfile demo_fs (output_name (demo_ns (- 300))) \<and>
   isdir demo_fs (ns_folder (demo_ns (- 300))) \<and>
   parse_arguments demo_fs (demo_ns (- 300)) = Inr (demo_args (- 300)) \<and>
   list_files demo_pil demo_fs (demo_args (- 300)) =
     ([], [(''a.png'', ''is not a valid image''), (''b.png'', ''is not a valid image''),
           (''b.txt'', ''is not a valid image''), (''c.jpg'', ''is not a valid image''),
           (''old'', ''is not a file'')])"
proof -
  have a: "ns_dpi (demo_ns (- 300)) \<le> 0" by code_simp
  have b: "\<not> isfile demo_fs (output_name (demo_ns (- 300)))" by code_simp
  have c: "isdir demo_fs (ns_folder (demo_ns (- 300)))" by code_simp
  have d: "\<forall>img w h. w < 1 \<or> h < 1 \<longrightarrow> isl (resize demo_pil img (w, h))"
    by (simp add: demo_pil_def)
  have p: "parse_arguments demo_fs (demo_ns (- 300)) = Inr (demo_args (- 300))" by code_simp
  have l: "list_files demo_pil demo_fs (demo_args (- 300)) =
     ([], [(''a.png'', ''is not a valid image''), (''b.png'', ''is not a valid image''),
           (''b.txt'', ''is not a valid image''), (''c.jpg'', ''is not a valid image''),
           (''old'', ''is not a file'')])" by code_simp
  from nonpositive_dpi_rejects_all [OF a b c d] p
  have "fst (list_files demo_pil demo_fs (demo_args (- 300))) = []" by auto
  with a b c p l show ?thesis by (intro conjI)
qed

section \<open>The run at 100 dpi\<close>

lemma xcords_100: "xcords 100 = Inr [50, 301, 552]"
  by code_simp

lemma ycords_100: "ycords 100 = Inr [25, 376, 727]"
  by code_simp

lemma page_size_100: "page_size 100 = Inr (850, 1100)"
  by code_simp

text \<open>
  Claim C6, as the program behaves.  At \<^verbatim>\<open>dpi = 100\<close> two accepted images give one page
  of 850 by 1100 pixels; the first image is pasted at \<open>(50, 25)\<close> and the second, in
  column 1 of row 0, at \<open>(301, 25)\<close>, since \<^verbatim>\<open>int(3 * 100 + round(.01 * 100))\<close> is 301.
\<close>

theorem scenario_two_images:
  "generate_images [a, c] (args\<lparr>dpi := 100\<rparr>) =
     Inr [\<lparr>c_mode = ''RGB'', c_size = (850, 1100), c_color = ''white'',
           pasted = [(a, 50, 25), (c, 301, 25)]\<rparr>]"
proof -
  have n: "num_pages (length [a, c]) = Suc 0"
    by (simp add: num_pages_def)
  have u: "[0..<length [a, c]] = [0, Suc 0]"
    by (simp add: upt_rec)
  show ?thesis
    unfolding generate_images_def n u
    by (simp add: page_size_100 image_new_def xcords_100 ycords_100 paste_step_def getitem_def paste_def)
qed

text \<open>The page of that run is not the one with the second image at \<open>(320, 25)\<close>.\<close>

theorem scenario_second_image_counterexample:
  "generate_images [''a.png'', ''c.jpg''] (demo_args 100) \<noteq>
     Inr [\<lparr>c_mode = ''RGB'', c_size = (850, 1100), c_color = ''white'',
           pasted = [(''a.png'', 50, 25), (''c.jpg'', 320, 25)]\<rparr>]"
  by code_simp

section \<open>generate_images: the pages\<close>





section \<open>generate_images: where each image goes\<close>




section \<open>The cells of a page do not overlap\<close>

lemma xcords_Inr:
  assumes "xcords d = Inr xs"
  shows "\<exists>x0 r1 a r2 s x2.
           int_scaled lit_0_5 d = Inr x0 \<and> round_scaled lit_0_01 d = Inr r1 \<and>
           fmul_int lit_5_5 d = Inr a \<and> round_scaled lit_0_02 d = Inr r2 \<and>
           fadd_int a r2 = Inr s \<and> int_of_float s = Inr x2 \<and>
           xs = [x0, 3 * d + r1, x2]"
  using assms unfolding xcords_def bind_Inr_iff by fastforce

lemma ycords_Inr:
  assumes "ycords d = Inr ys"
  shows "\<exists>y0 a r1 s1 y1 b r2 s2 y2.
           int_scaled lit_0_25 d = Inr y0 \<and>
           fmul_int lit_3_75 d = Inr a \<and> round_scaled lit_0_01 d = Inr r1 \<and>
           fadd_int a r1 = Inr s1 \<and> int_of_float s1 = Inr y1 \<and>
           fmul_int lit_7_25 d = Inr b \<and> round_scaled lit_0_02 d = Inr r2 \<and>
           fadd_int b r2 = Inr s2 \<and> int_of_float s2 = Inr y2 \<and>
           ys = [y0, y1, y2]"
  using assms unfolding ycords_def bind_Inr_iff by fastforce

lemma pitches_small:
  assumes d: "0 \<le> d" "d < 2 ^ 47"
    and c: "card_size d = Inr (w, h)" and x: "xcords d = Inr xs" and y: "ycords d = Inr ys"
  shows "xs ! 0 + w \<le> xs ! 1 \<and> xs ! 1 + w \<le> xs ! 2 \<and>
         ys ! 0 + h \<le> ys ! 1 \<and> ys ! 1 + h \<le> ys ! 2"
proof -
  from tables_exact [OF d] obtain r1 r2 where
    r: "round_scaled lit_0_01 d = Inr r1" "round_scaled lit_0_02 d = Inr r2"
    and t: "xcords d = Inr [d div 2, 3 * d + r1, (11 * d) div 2 + r2]"
      "ycords d = Inr [d div 4, (15 * d) div 4 + r1, (29 * d) div 4 + r2]"
    by blast
  from round_scaled_lits [OF r d(1)] have o: "0 \<le> r1" "r1 \<le> r2" by blast+
  from d c have wh: "w = (5 * d) div 2" "h = (7 * d) div 2"
    using card_size_exact [of d] by simp_all
  from t x y have xs: "xs = [d div 2, 3 * d + r1, (11 * d) div 2 + r2]"
    and ys: "ys = [d div 4, (15 * d) div 4 + r1, (29 * d) div 4 + r2]"
    by simp_all
  have "d div 2 + (5 * d) div 2 \<le> 3 * d + r1" using o by linarith
  moreover have "3 * d + r1 + (5 * d) div 2 \<le> (11 * d) div 2 + r2" using o by linarith
  moreover have "d div 4 + (7 * d) div 2 \<le> (15 * d) div 4 + r1" using o by linarith
  moreover have "(15 * d) div 4 + r1 + (7 * d) div 2 \<le> (29 * d) div 4 + r2" using o by linarith
  ultimately show ?thesis by (simp add: xs ys wh)
qed

lemma pitches_large:
  assumes d: "1024 \<le> d"
    and c: "card_size d = Inr (w, h)" and x: "xcords d = Inr xs" and y: "ycords d = Inr ys"
  shows "xs ! 0 + w \<le> xs ! 1 \<and> xs ! 1 + w \<le> xs ! 2 \<and>
         ys ! 0 + h \<le> ys ! 1 \<and> ys ! 1 + h \<le> ys ! 2"
proof -
  from d have d0: "0 \<le> d" by simp
  from xcords_Inr [OF x] obtain x0 r1 a r2 s x2 where
    x0: "int_scaled lit_0_5 d = Inr x0" and r1: "round_scaled lit_0_01 d = Inr r1"
    and a: "fmul_int lit_5_5 d = Inr a" and r2: "round_scaled lit_0_02 d = Inr r2"
    and s: "fadd_int a r2 = Inr s" and x2: "int_of_float s = Inr x2"
    and xs: "xs = [x0, 3 * d + r1, x2]"
    by blast
  from ycords_Inr [OF y] r1 r2 obtain y0 a1 s1 y1 a2 s2 y2 where
    y0: "int_scaled lit_0_25 d = Inr y0"
    and a1: "fmul_int lit_3_75 d = Inr a1" and s1: "fadd_int a1 r1 = Inr s1"
    and y1: "int_of_float s1 = Inr y1"
    and a2: "fmul_int lit_7_25 d = Inr a2" and s2: "fadd_int a2 r2 = Inr s2"
    and y2: "int_of_float s2 = Inr y2"
    and ys: "ys = [y0, y1, y2]"
    by auto
  define D where "D = real_of_int d"
  define W where "W = real_of_int w"
  define H where "H = real_of_int h"
  define R1 where "R1 = real_of_int r1"
  define R2 where "R2 = real_of_int r2"
  define X0 where "X0 = real_of_int x0"
  define X2 where "X2 = real_of_int x2"
  define Y0 where "Y0 = real_of_int y0"
  define Y1 where "Y1 = real_of_int y1"
  define Y2 where "Y2 = real_of_int y2"
  have D: "1024 \<le> D" using d by (simp add: D_def)
  from round_scaled_lits [OF r1 r2 d0] have
    r0: "0 \<le> r1" "0 \<le> r2"
    and b1: "\<bar>R1 - D / 100\<bar> \<le> 1 / 2 + D / 2 ^ 57"
    and b2: "\<bar>R2 - D / 50\<bar> \<le> 1 / 2 + D / 2 ^ 56"
    by (simp_all add: R1_def R2_def D_def)
  from card_size_bounds [OF c d0] have
    "W \<le> 5 / 2 * D * (1 + 3 / 2 ^ 53)" "H \<le> 7 / 2 * D * (1 + 3 / 2 ^ 53)"
    by (simp_all add: W_def H_def D_def)
  then have bw: "W \<le> 5 / 2 * D + 15 / 2 * D / 2 ^ 53"
    and bh: "H \<le> 7 / 2 * D + 21 / 2 * D / 2 ^ 53"
    by (simp_all add: algebra_simps)
  from int_scaled_bounds [OF x0 [unfolded lit_0_5_def] _ d0]
  have bx0: "X0 \<le> 1 / 2 * D + 3 * (1 / 2 * D) / 2 ^ 53"
    unfolding X0_def D_def by (simp only: valf_halves) simp
  from int_scaled_bounds [OF y0 [unfolded lit_0_25_def] _ d0]
  have by0: "Y0 \<le> 1 / 4 * D + 3 * (1 / 4 * D) / 2 ^ 53"
    unfolding Y0_def D_def by (simp only: valf_quarters) simp
  from scaled_sum_bounds [OF a [unfolded lit_5_5_def] s x2 _ d0 _ r0(2)]
  have bx2: "(11 / 2 * D + R2) - 5 * (11 / 2 * D + R2) / 2 ^ 53 - 1 < X2"
    unfolding X2_def D_def R2_def by (simp only: valf_halves) simp
  from scaled_sum_bounds [OF a1 [unfolded lit_3_75_def] s1 y1 _ d0 _ r0(1)]
  have by1: "Y1 \<le> (15 / 4 * D + R1) + 5 * (15 / 4 * D + R1) / 2 ^ 53"
       "(15 / 4 * D + R1) - 5 * (15 / 4 * D + R1) / 2 ^ 53 - 1 < Y1"
    unfolding Y1_def D_def R1_def by (simp_all only: valf_quarters) simp_all
  from scaled_sum_bounds [OF a2 [unfolded lit_7_25_def] s2 y2 _ d0 _ r0(2)]
  have by2: "(29 / 4 * D + R2) - 5 * (29 / 4 * D + R2) / 2 ^ 53 - 1 < Y2"
    unfolding Y2_def D_def R2_def by (simp only: valf_quarters) simp
  from b1 have u1: "R1 \<le> D / 100 + 1 / 2 + D / 2 ^ 57" and l1: "D / 100 - 1 / 2 - D / 2 ^ 57 \<le> R1"
    by linarith+
  from b2 have u2: "R2 \<le> D / 50 + 1 / 2 + D / 2 ^ 56" and l2: "D / 50 - 1 / 2 - D / 2 ^ 56 \<le> R2"
    by linarith+
  have D0: "0 \<le> D" using D by simp
  have u1': "R1 \<le> D / 100 + 1 / 2 + D / 1000"
    using u1 D0 unfolding real_pows by linarith
  have l1': "D / 100 - 1 / 2 - D / 1000 \<le> R1"
    using l1 D0 unfolding real_pows by linarith
  have u2': "R2 \<le> D / 50 + 1 / 2 + D / 1000"
    using u2 D0 unfolding real_pows by linarith
  have l2': "D / 50 - 1 / 2 - D / 1000 \<le> R2"
    using l2 D0 unfolding real_pows by linarith
  have R1D: "0 \<le> R1" "R1 \<le> D" using l1' u1' D by linarith+
  have R2D: "0 \<le> R2" "R2 \<le> D" using l2' u2' D by linarith+
  have bw': "W \<le> 5 / 2 * D + D / 1000"
    using bw D0 unfolding p53 by linarith
  have bh': "H \<le> 7 / 2 * D + D / 1000"
    using bh D0 unfolding p53 by linarith
  have bx0': "X0 \<le> 1 / 2 * D + D / 1000"
    using bx0 D0 unfolding p53 by linarith
  have by0': "Y0 \<le> 1 / 4 * D + D / 1000"
    using by0 D0 unfolding p53 by linarith
  have e1: "5 * (11 / 2 * D + R2) / 2 ^ 53 \<le> D / 1000"
    using R2D D0 unfolding p53 by (simp add: field_simps)
  have e2: "5 * (15 / 4 * D + R1) / 2 ^ 53 \<le> D / 1000"
    using R1D D0 unfolding p53 by (simp add: field_simps)
  have e3: "5 * (29 / 4 * D + R2) / 2 ^ 53 \<le> D / 1000"
    using R2D D0 unfolding p53 by (simp add: field_simps)
  from bx2 e1 have bx2': "11 / 2 * D + R2 - D / 1000 - 1 < X2" by linarith
  from by1 e2 have by1': "Y1 \<le> 15 / 4 * D + R1 + D / 1000" "15 / 4 * D + R1 - D / 1000 - 1 < Y1"
    by linarith+
  from by2 e3 have by2': "29 / 4 * D + R2 - D / 1000 - 1 < Y2" by linarith
  have p1: "X0 + W < (3 * D + R1) + 1"
    using D l1' bw' bx0' by linarith
  have p2: "(3 * D + R1) + W < X2 + 1"
    using D u1' l2' bw' bx2' by linarith
  have p3: "Y0 + H < Y1 + 1"
    using D l1' bh' by0' by1' by linarith
  have p4: "Y1 + H < Y2 + 1"
    using D u1' l2' bh' by1' by2' by linarith
  from p1 have "x0 + w \<le> 3 * d + r1"
    unfolding X0_def W_def D_def R1_def by linarith
  moreover from p2 have "3 * d + r1 + w \<le> x2"
    unfolding X2_def W_def D_def R1_def by linarith
  moreover from p3 have "y0 + h \<le> y1"
    unfolding Y0_def Y1_def H_def by linarith
  moreover from p4 have "y1 + h \<le> y2"
    unfolding Y1_def Y2_def H_def by linarith
  ultimately show ?thesis by (simp add: xs ys)
qed

lemma pitch_apart:
  assumes "zs ! 0 + (s::int) \<le> zs ! 1" "zs ! 1 + s \<le> zs ! 2" "0 < s" "a < 3" "b < 3" "a \<noteq> b"
  shows "zs ! a + s \<le> zs ! b \<or> zs ! b + s \<le> zs ! a"
proof -
  from assms(4) consider "a = 0" | "a = 1" | "a = 2" by linarith
  then show ?thesis
  proof cases
    case 1
    with assms(5,6) consider "b = 1" | "b = 2" by linarith
    then show ?thesis using 1 assms(1-3) by cases simp_all
  next
    case 2
    with assms(5,6) consider "b = 0" | "b = 2" by linarith
    then show ?thesis using 2 assms(1-3) by cases simp_all
  next
    case 3
    with assms(5,6) consider "b = 0" | "b = 1" by linarith
    then show ?thesis using 3 assms(1-3) by cases simp_all
  qed
qed

lemma cell_differs:
  assumes "i < 9" "j < 9" "i \<noteq> (j::nat)"
  shows "i mod 3 \<noteq> j mod 3 \<or> (i mod 9) div 3 \<noteq> (j mod 9) div 3"
proof -
  have "i = 3 * (i div 3) + i mod 3" "j = 3 * (j div 3) + j mod 3" by simp_all
  with assms show ?thesis by (metis mod_less)
qed

text \<open>
  Claim C4.  For every dpi of at least one for which the card size and the two tables
  are computed, each column starts at least a card width after the previous one and
  each row at least a card height after the previous one, and the card has a positive
  width and height; hence the nine rectangles of a page, placed at
  \<open>(xs ! (i mod 3), ys ! ((i mod 9) div 3))\<close>, are pairwise disjoint.  Below \<open>2 ^ 47\<close> the
  float operations are exact and the pitches follow from the closed forms; from there
  on the term \<^verbatim>\<open>round(.01 * dpi)\<close> exceeds every rounding error.
\<close>

theorem cells_do_not_overlap:
  assumes d: "1 \<le> d"
    and c: "card_size d = Inr (w, h)" and x: "xcords d = Inr xs" and y: "ycords d = Inr ys"
  shows "xs ! 0 + w \<le> xs ! 1 \<and> xs ! 1 + w \<le> xs ! 2 \<and>
         ys ! 0 + h \<le> ys ! 1 \<and> ys ! 1 + h \<le> ys ! 2 \<and>
         0 < w \<and> 0 < h \<and>
         (\<forall>i<9. \<forall>j<9. i \<noteq> j \<longrightarrow>
            disjoint_rects (w, h) (xs ! (i mod 3), ys ! ((i mod 9) div 3))
                                  (xs ! (j mod 3), ys ! ((j mod 9) div 3)))"
proof -
  from d have d0: "0 \<le> d" by simp
  have p: "xs ! 0 + w \<le> xs ! 1 \<and> xs ! 1 + w \<le> xs ! 2 \<and>
           ys ! 0 + h \<le> ys ! 1 \<and> ys ! 1 + h \<le> ys ! 2"
  proof (cases "d < 2 ^ 47")
    case True
    with d0 c x y show ?thesis by (intro pitches_small)
  next
    case False
    then have "1024 \<le> d" by simp
    with c x y show ?thesis by (intro pitches_large)
  qed
  define D where "D = real_of_int d"
  define W where "W = real_of_int w"
  define H where "H = real_of_int h"
  have D: "1 \<le> D" using d by (simp add: D_def)
  from card_size_bounds [OF c d0] have
    "5 / 2 * D * (1 - 3 / 2 ^ 53) - 1 < W" "7 / 2 * D * (1 - 3 / 2 ^ 53) - 1 < H"
    by (simp_all add: W_def H_def D_def)
  then have "5 / 2 * D - 15 / 2 * D / 2 ^ 53 - 1 < W" "7 / 2 * D - 21 / 2 * D / 2 ^ 53 - 1 < H"
    by (simp_all add: algebra_simps)
  with D have "0 < W" "0 < H" unfolding p53 by linarith+
  then have pos: "0 < w" "0 < h" by (simp_all add: W_def H_def)
  have dis: "disjoint_rects (w, h) (xs ! (i mod 3), ys ! ((i mod 9) div 3))
                                  (xs ! (j mod 3), ys ! ((j mod 9) div 3))"
    if "i < 9" "j < 9" "i \<noteq> j" for i j :: nat
  proof -
    have r: "i mod 3 < 3" "j mod 3 < 3" "(i mod 9) div 3 < 3" "(j mod 9) div 3 < 3"
      by linarith+
    from cell_differs [OF that] show ?thesis
    proof
      assume ne: "i mod 3 \<noteq> j mod 3"
      from p pos have "xs ! 0 + w \<le> xs ! 1" "xs ! 1 + w \<le> xs ! 2" "0 < w" by blast+
      from pitch_apart [OF this r(1,2) ne]
      show ?thesis by (auto simp: disjoint_rects_def)
    next
      assume ne: "(i mod 9) div 3 \<noteq> (j mod 9) div 3"
      from p pos have "ys ! 0 + h \<le> ys ! 1" "ys ! 1 + h \<le> ys ! 2" "0 < h" by blast+
      from pitch_apart [OF this r(3,4) ne]
      show ?thesis by (auto simp: disjoint_rects_def)
    qed
  qed
  from p pos dis show ?thesis by blast
qed

theorem cells_do_not_overlap_witness:
  "(1::int) \<le> 100 \<and> card_size 100 = Inr (250, 350) \<and>
   xcords 100 = Inr [50, 301, 552] \<and> ycords 100 = Inr [25, 376, 727] \<and>
   [50, 301, 552 :: int] ! 0 + 250 \<le> [50, 301, 552] ! 1 \<and>
   [25, 376, 727 :: int] ! 1 + 350 \<le> [25, 376, 727] ! 2"
proof -
  have d: "(1::int) \<le> 100" by simp
  have c: "card_size 100 = Inr (250, 350)" by code_simp
  from cells_do_not_overlap [OF d c xcords_100 ycords_100]
  have "[50, 301, 552 :: int] ! 0 + 250 \<le> [50, 301, 552] ! 1"
       "[25, 376, 727 :: int] ! 1 + 350 \<le> [25, 376, 727] ! 2"
    by blast+
  with d c xcords_100 ycords_100 show ?thesis by (intro conjI)
qed

end
